theory Spec2Isabelle
  imports Main "HOL-Library.AList" "HOL-Library.Sublist"
begin

section \<open>Data model of the sharding master\<close>

text \<open>
  \<^verbatim>\<open>ShardStatus\<close> (the health snapshot a shard reports) and \<^verbatim>\<open>ShardInfo\<close> (one entry of
  \<^verbatim>\<open>ShardingMaster._knownUsers\<close>) are required by the master from files of their own; the
  records below hold the fields the master reads and writes.  All JavaScript numbers that
  occur are millisecond timestamps, counters and shard ids, modelled as \<^typ>\<open>int\<close>.
\<close>

record ShardStatus =
  statusId :: string
  statusGoalShardId :: int
  statusCurrentShardId :: int
  statusCurrentShardCount :: int
  messageCountDelta :: int

record ShardInfo =
  shardName :: string
  key :: "string option"
  isMaster :: bool
  goalShardId :: int
  goalShardCount :: int
  currentShardId :: int
  currentShardCount :: int
  lastSeen :: int
  lastHeartbeat :: int
  bootTime :: int
  stopTime :: int
  stats :: "ShardStatus option"

record HeartbeatConfig =
  updateStyle :: string
  interval :: int
  requestRebootAfter :: int
  expectRebootAfter :: int
  assumeDeadAfter :: int
  useMessageStats :: bool

section \<open>Reconciliation: \<^verbatim>\<open>_refreshShardStatus\<close>\<close>

text \<open>
  \<^verbatim>\<open>Object.values(this._knownUsers)\<close> is a list of object references.  The registry is the
  list of the objects in that order, and a reference is a position in the list, so that a
  write through a reference held in \<^verbatim>\<open>correct\<close>, \<^verbatim>\<open>incorrect\<close> or \<^verbatim>\<open>master\<close> is a list update
  visible through every other reference to the same object.
\<close>

text \<open>The three list functions below are called by the pass with its goal, a number that
  is not negative, so their fallback to \<^verbatim>\<open>getGoalShardCount\<close> is not taken.\<close>

definition getKnownShardCount :: "ShardInfo list \<Rightarrow> int" where
  "getKnownShardCount vs = int (length (filter (\<lambda>el. \<not> isMaster el) vs))"

definition getCurrentConfigured :: "HeartbeatConfig \<Rightarrow> int \<Rightarrow> int \<Rightarrow> ShardInfo list \<Rightarrow> nat list" where
  "getCurrentConfigured hb now goal vs =
     filter (\<lambda>r. \<not> isMaster (vs ! r) \<and> goalShardCount (vs ! r) = goal \<and>
                 lastHeartbeat (vs ! r) > now - assumeDeadAfter hb) [0..<length vs]"

definition getCurrentUnconfigured :: "HeartbeatConfig \<Rightarrow> int \<Rightarrow> int \<Rightarrow> ShardInfo list \<Rightarrow> nat list" where
  "getCurrentUnconfigured hb now goal vs =
     filter (\<lambda>r. \<not> isMaster (vs ! r) \<and> goalShardCount (vs ! r) \<noteq> goal \<and>
                 lastSeen (vs ! r) > now - assumeDeadAfter hb) [0..<length vs]"

text \<open>\<^verbatim>\<open>ids.indexOf(x)\<close> followed by \<^verbatim>\<open>ids.splice(index, 1)\<close> when the index is not negative
  removes the first occurrence of \<^verbatim>\<open>x\<close>, which is \<^const>\<open>remove1\<close>.\<close>

definition getCurrentUnboundIds :: "int \<Rightarrow> ShardInfo list \<Rightarrow> int list" where
  "getCurrentUnboundIds goal vs =
     (if goal < 0 then []
      else foldl (\<lambda>ids el. if isMaster el then ids
                            else if goalShardCount el = goal then remove1 (goalShardId el) ids
                            else ids)
                 (map int [0..<nat goal]) vs)"

definition getMasterUser :: "ShardInfo list \<Rightarrow> nat option" where
  "getMasterUser vs = List.find (\<lambda>r. isMaster (vs ! r)) [0..<length vs]"

text \<open>\<^verbatim>\<open>correct.sort((a, b) => b.bootTime - a.bootTime)\<close>: a stable sort, latest boot first.\<close>

definition sortByBootTime :: "ShardInfo list \<Rightarrow> nat list \<Rightarrow> nat list" where
  "sortByBootTime vs rs = sort_key (\<lambda>r. - bootTime (vs ! r)) rs"

definition shutdownDirective :: "int \<Rightarrow> ShardInfo \<Rightarrow> ShardInfo" where
  "shutdownDirective now s = s\<lparr>goalShardId := - 1, goalShardCount := - 1, stopTime := now\<rparr>"

definition stale :: "HeartbeatConfig \<Rightarrow> int \<Rightarrow> ShardInfo \<Rightarrow> bool" where
  "stale hb now el \<longleftrightarrow>
     now - lastHeartbeat el > requestRebootAfter hb \<and> now - lastHeartbeat el < expectRebootAfter hb"

definition goalKey :: "ShardInfo \<Rightarrow> int \<times> int" where
  "goalKey el = (goalShardId el, goalShardCount el)"

record loopState =
  store :: "ShardInfo list"
  correct :: "nat list"
  configuring :: "nat list"
  foundIds :: "(int \<times> int) list"

text \<open>
  The loop over \<^verbatim>\<open>correct\<close> (lines 449 to 488).  The source removes an element with
  \<^verbatim>\<open>splice(i, 1)\<close> and steps \<^verbatim>\<open>i\<close> back, so every element of the sorted array is visited
  once, in order; the elements that are not removed are collected in \<^const>\<open>correct\<close>.
\<close>

fun resolveLoop :: "HeartbeatConfig \<Rightarrow> int \<Rightarrow> nat list \<Rightarrow> loopState \<Rightarrow> loopState" where
  "resolveLoop hb now [] st = st"
| "resolveLoop hb now (r # rs) st =
     (let el = store st ! r in
      if now - lastHeartbeat el > requestRebootAfter hb \<and>
         now - lastHeartbeat el < expectRebootAfter hb
      then resolveLoop hb now rs
             (st\<lparr>store := (store st)[r := shutdownDirective now el],
                 configuring := configuring st @ [r]\<rparr>)
      else if List.find (\<lambda>f. fst f = goalShardId el \<and> snd f = goalShardCount el) (foundIds st)
                \<noteq> None
      then resolveLoop hb now rs
             (st\<lparr>store := (store st)[r := shutdownDirective now el],
                 configuring := configuring st @ [r]\<rparr>)
      else resolveLoop hb now rs
             (st\<lparr>correct := correct st @ [r],
                 foundIds := foundIds st @ [(goalShardId el, goalShardCount el)],
                 configuring :=
                   (if goalShardId el \<noteq> currentShardId el \<or>
                       goalShardCount el \<noteq> currentShardCount el
                    then configuring st @ [r] else configuring st)\<rparr>))"

text \<open>\<^verbatim>\<open>newIds.forEach\<close> (lines 490 to 498): each unbound id takes the first shard left in
  \<^verbatim>\<open>incorrect\<close>, if there is one.\<close>

fun assignUnbound ::
  "int \<Rightarrow> int \<Rightarrow> int list \<Rightarrow> nat list \<Rightarrow> ShardInfo list \<times> nat list \<Rightarrow> ShardInfo list \<times> nat list" where
  "assignUnbound now goal [] incorrect sc = sc"
| "assignUnbound now goal (el # newIds) [] sc = assignUnbound now goal newIds [] sc"
| "assignUnbound now goal (el # newIds) (s # incorrect) (vs, conf) =
     assignUnbound now goal newIds incorrect
       (vs[s := (vs ! s)\<lparr>bootTime := now, goalShardId := el, goalShardCount := goal\<rparr>], conf @ [s])"

definition assignMaster :: "int \<Rightarrow> nat option \<Rightarrow> ShardInfo list \<times> nat list \<Rightarrow> ShardInfo list \<times> nat list" where
  "assignMaster goal master sc =
     (case master of
        None \<Rightarrow> sc
      | Some m \<Rightarrow>
          if goalShardId (fst sc ! m) < 0
          then ((fst sc)[m := (fst sc ! m)\<lparr>goalShardId := 1000, goalShardCount := goal\<rparr>], snd sc @ [m])
          else sc)"

record passResult =
  registry :: "ShardInfo list"
  stillCorrect :: "nat list"
  queued :: "nat list"

text \<open>
  The part of one pass that decides assignments (lines 404 to 504), for a goal that is not
  negative.  \<^verbatim>\<open>nowC\<close> and \<^verbatim>\<open>nowU\<close> are the clock readings inside \<^verbatim>\<open>_getCurrentConfigured\<close> and
  \<^verbatim>\<open>_getCurrentUnconfigured\<close>, \<^verbatim>\<open>now\<close> the one of line 445.  \<^verbatim>\<open>minted\<close> are the provisional
  entries that the calls of \<^verbatim>\<open>generateShardConfig\<close> in lines 419 to 424 add to the registry
  after the three lists were computed.
\<close>

definition reconcile ::
  "HeartbeatConfig \<Rightarrow> int \<Rightarrow> int \<Rightarrow> int \<Rightarrow> int \<Rightarrow> ShardInfo list \<Rightarrow> ShardInfo list \<Rightarrow> passResult" where
  "reconcile hb nowC nowU now goal minted vs =
     (let cor = getCurrentConfigured hb nowC goal vs;
          incorrect = getCurrentUnconfigured hb nowU goal vs;
          newIds = getCurrentUnboundIds goal vs;
          master = getMasterUser vs;
          st = resolveLoop hb now (sortByBootTime vs cor)
                 \<lparr>store = vs @ minted, correct = [], configuring = [], foundIds = []\<rparr>;
          sc = assignMaster goal master
                 (assignUnbound now goal newIds incorrect (store st, configuring st))
      in \<lparr>registry = fst sc, stillCorrect = correct st, queued = snd sc\<rparr>)"

text \<open>
  The result of the loop, stated on the registry as it was before the loop: \<open>kept\<close> lists
  the references that stay in \<^verbatim>\<open>correct\<close>, \<open>demoteAt\<close> and \<open>keepAt\<close> are the two ways one
  iteration changes the loop state.
\<close>

fun kept :: "HeartbeatConfig \<Rightarrow> int \<Rightarrow> ShardInfo list \<Rightarrow> (int \<times> int) list \<Rightarrow> nat list \<Rightarrow> nat list" where
  "kept hb now vs found [] = []"
| "kept hb now vs found (r # rs) =
     (if stale hb now (vs ! r) \<or> goalKey (vs ! r) \<in> set found then kept hb now vs found rs
      else r # kept hb now vs (found @ [goalKey (vs ! r)]) rs)"

definition demoteAt :: "int \<Rightarrow> nat \<Rightarrow> loopState \<Rightarrow> loopState" where
  "demoteAt now r st =
     st\<lparr>store := (store st)[r := shutdownDirective now (store st ! r)],
        configuring := configuring st @ [r]\<rparr>"

definition keepAt :: "nat \<Rightarrow> loopState \<Rightarrow> loopState" where
  "keepAt r st =
     st\<lparr>correct := correct st @ [r],
        foundIds := foundIds st @ [goalKey (store st ! r)],
        configuring :=
          (if goalShardId (store st ! r) \<noteq> currentShardId (store st ! r) \<or>
              goalShardCount (store st ! r) \<noteq> currentShardCount (store st ! r)
           then configuring st @ [r] else configuring st)\<rparr>"

text \<open>The shards of a list of references that claim the pair \<open>k\<close> and are outside the
  window in which the loop enqueues a shutdown for silence.\<close>

definition freshClaimants :: "HeartbeatConfig \<Rightarrow> int \<Rightarrow> ShardInfo list \<Rightarrow> int \<times> int \<Rightarrow> nat list \<Rightarrow> nat list" where
  "freshClaimants hb now vs k rs =
     filter (\<lambda>i. goalKey (vs ! i) = k \<and> \<not> stale hb now (vs ! i)) rs"

text \<open>A heartbeat configuration and registry entries for the worked examples.\<close>

definition exHb :: HeartbeatConfig where
  "exHb = \<lparr>updateStyle = ''pull'', interval = 1000, requestRebootAfter = 10,
           expectRebootAfter = 20, assumeDeadAfter = 30, useMessageStats = False\<rparr>"

definition exShard :: "string \<Rightarrow> int \<Rightarrow> int \<Rightarrow> int \<Rightarrow> int \<Rightarrow> ShardInfo" where
  "exShard n gid gcount hbTime boot =
     \<lparr>shardName = n, key = None, isMaster = False, goalShardId = gid, goalShardCount = gcount,
      currentShardId = gid, currentShardCount = gcount, lastSeen = hbTime,
      lastHeartbeat = hbTime, bootTime = boot, stopTime = 0, stats = None\<rparr>"


section \<open>Incoming connections: \<^verbatim>\<open>_socketConnection\<close>\<close>

record ShardMasterConfig =
  heartbeat :: HeartbeatConfig
  connCount :: int
  connTime :: int
  tsPrecision :: int
  mailEnabled :: bool

text \<open>
  What the handler reads of a socket: its id, the name \<^verbatim>\<open>common.getIPName\<close> gives the
  forwarded or direct address, and the \<^verbatim>\<open>authorization\<close> header (\<open>None\<close> when absent).
\<close>

record Socket =
  socketId :: string
  ipName :: string
  authorization :: "string option"

text \<open>
  The registry \<^verbatim>\<open>_knownUsers\<close> is an object keyed by shard name, \<open>None\<close> while it is
  \<^verbatim>\<open>null\<close>.  Keys are shard names, never array indices, so the object keeps insertion
  order and \<^const>\<open>AList.update\<close> is assignment to a key.  \<^verbatim>\<open>_sockets\<close> holds the ids of the
  connected sockets, \<^verbatim>\<open>_shardSockets\<close> maps a shard name to the id of its socket.
\<close>

record Master =
  knownUsers :: "(string \<times> ShardInfo) list option"
  privKey :: "string option"
  ipConnectHistory :: "(string \<times> int) list"
  sockets :: "string list"
  shardSockets :: "(string \<times> string) list"
  masterShardSocket :: "string option"

datatype rejection =
    RateLimited | NoAuthorization | InvalidAuthorization | UsersNotLoaded | UnknownUser
  | AlreadyConnected | InvalidTimestamp | NoPrivateKey | NoPublicKey | VerifyFailed
  | MasterAlreadyConnected

text \<open>What the handler does to the socket, in order: \<^verbatim>\<open>socket.on\<close>, \<^verbatim>\<open>socket.emit\<close> of
  \<^verbatim>\<open>masterVerification\<close>, \<^verbatim>\<open>socket.disconnect(true)\<close>, and the call of
  \<^verbatim>\<open>_refreshShardStatus\<close> of line 923.\<close>

datatype socketEvent =
    Listen string
  | EmitMasterVerification string string
  | Disconnect
  | RefreshShardStatus

record connResult =
  after :: Master
  rejected :: "rejection option"
  socketLog :: "socketEvent list"
  socketUserId :: "string option"
  socketIsMasterShard :: "bool option"

text \<open>
  The loop of lines 785 to 793 over the history, from index \<open>i\<close> on: \<open>hs\<close> is the part of
  the history not yet visited.  It returns \<^verbatim>\<open>remove\<close> and \<^verbatim>\<open>ipCount\<close>.
\<close>

fun scanHistory ::
  "int \<Rightarrow> int \<Rightarrow> int \<Rightarrow> string \<Rightarrow> (string \<times> int) list \<Rightarrow> nat \<Rightarrow> nat \<Rightarrow> int \<Rightarrow> nat \<times> int" where
  "scanHistory cc ct now ip [] i remove ipCount = (remove, ipCount)"
| "scanHistory cc ct now ip (h # hs) i remove ipCount =
     (if ipCount < cc
      then (if now - snd h \<ge> ct then scanHistory cc ct now ip hs (Suc i) (Suc i) ipCount
            else if ip = fst h then scanHistory cc ct now ip hs (Suc i) remove (ipCount + 1)
            else scanHistory cc ct now ip hs (Suc i) remove ipCount)
      else (remove, ipCount))"

text \<open>Lines 781 to 797: the new history and whether the attempt is over the limit.\<close>

definition rateLimit ::
  "ShardMasterConfig \<Rightarrow> int \<Rightarrow> string \<Rightarrow> (string \<times> int) list \<Rightarrow> bool \<times> (string \<times> int) list" where
  "rateLimit cfg now ip hist =
     (let pushed = hist @ [(ip, now)];
          (remove, ipCount) = scanHistory (connCount cfg) (connTime cfg) now ip pushed 0 0 0
      in (ipCount \<ge> connCount cfg, if remove > 0 then drop remove pushed else pushed))"

text \<open>\<^verbatim>\<open>String.prototype.split\<close> on one separator character.\<close>

fun split :: "char \<Rightarrow> string \<Rightarrow> string list" where
  "split c [] = [[]]"
| "split c (x # xs) =
     (if x = c then [] # split c xs
      else (case split c xs of [] \<Rightarrow> [[x]] | p # ps \<Rightarrow> (x # p) # ps))"

text \<open>Decimal digits of a number that is not negative, as a template string prints it.\<close>

fun digits :: "nat \<Rightarrow> string" where
  "digits n = (if n < 10 then [char_of (48 + n)] else digits (n div 10) @ [char_of (48 + n mod 10)])"

definition signData :: "int \<Rightarrow> string" where
  "signData now = ''Look at me, I'' @ [CHR 0x27] @ ''m the captain now. '' @ digits (nat now)"

text \<open>
  The checks of lines 814 to 895, in the order of the source; none of them writes to the
  master.  \<open>verify\<close> is \<^verbatim>\<open>crypto\<close>'s signature check of (public key, signature, data), false
  also when it throws; \<open>toNumber\<close> is the conversion of a string to a number, \<open>None\<close> for
  \<^verbatim>\<open>NaN\<close>.  An absent part of the header is \<^verbatim>\<open>undefined\<close>, which is falsy and converts to
  \<^verbatim>\<open>NaN\<close>.  A connection that passes yields the presented id, its registry entry, the
  registry and the private key of the master.
\<close>

definition checkHandshake ::
  "ShardMasterConfig \<Rightarrow> (string \<Rightarrow> string \<Rightarrow> string \<Rightarrow> bool) \<Rightarrow> (string \<Rightarrow> int option) \<Rightarrow>
   int \<Rightarrow> Master \<Rightarrow> Socket \<Rightarrow>
   rejection + (string \<times> ShardInfo \<times> (string \<times> ShardInfo) list \<times> string)" where
  "checkHandshake cfg verify toNumber now m socket =
     (case authorization socket of
        None \<Rightarrow> Inl NoAuthorization
      | Some shardAuth \<Rightarrow>
     if shardAuth = [] then Inl NoAuthorization
     else
     let parts = split CHR '','' shardAuth;
         userId = parts ! 0;
         userSig = (if 1 < length parts then Some (parts ! 1) else None);
         timestamp = (if 2 < length parts then Some (parts ! 2) else None);
         ts = (case timestamp of None \<Rightarrow> None | Some t \<Rightarrow> toNumber t)
     in if userId = [] \<or> userSig = None \<or> userSig = Some [] \<or> ts = None \<or> ts = Some 0
        then Inl InvalidAuthorization
     else case knownUsers m of
        None \<Rightarrow> Inl UsersNotLoaded
      | Some users \<Rightarrow>
     (case map_of users userId of
        None \<Rightarrow> Inl UnknownUser
      | Some user \<Rightarrow>
     if map_of (shardSockets m) userId \<noteq> None then Inl AlreadyConnected
     else if \<bar>the ts - now\<bar> > tsPrecision cfg then Inl InvalidTimestamp
     else case privKey m of
        None \<Rightarrow> Inl NoPrivateKey
      | Some priv \<Rightarrow>
     if priv = [] then Inl NoPrivateKey
     else case key user of
        None \<Rightarrow> Inl NoPublicKey
      | Some pub \<Rightarrow>
     if pub = [] then Inl NoPublicKey
     else if \<not> verify pub (the userSig) (userId @ the timestamp) then Inl VerifyFailed
     else Inr (userId, user, users, priv)))"

text \<open>
  The handler, up to the registration of the \<^verbatim>\<open>status\<close> listener.  \<open>sign\<close> is the signature
  of (private key, data).  \<^verbatim>\<open>user.lastSeen = now\<close> of line 897 writes to the object held by
  the registry, before the test for a second master shard.
\<close>

definition socketConnection ::
  "ShardMasterConfig \<Rightarrow> (string \<Rightarrow> string \<Rightarrow> string \<Rightarrow> bool) \<Rightarrow> (string \<Rightarrow> string \<Rightarrow> string) \<Rightarrow>
   (string \<Rightarrow> int option) \<Rightarrow> int \<Rightarrow> Master \<Rightarrow> Socket \<Rightarrow> connResult" where
  "socketConnection cfg verify sign toNumber now m socket =
     (let (limited, hist) = rateLimit cfg now (ipName socket) (ipConnectHistory m);
          m1 = m\<lparr>ipConnectHistory := hist\<rparr>
      in if limited
         then \<lparr>after = m1, rejected = Some RateLimited, socketLog = [Disconnect],
               socketUserId = None, socketIsMasterShard = None\<rparr>
         else
           let m2 = m1\<lparr>sockets := sockets m1 @ [socketId socket]\<rparr>;
               l = [Listen ''disconnect'']
           in case checkHandshake cfg verify toNumber now m2 socket of
                Inl why \<Rightarrow>
                  \<lparr>after = m2, rejected = Some why, socketLog = l @ [Disconnect],
                   socketUserId = None, socketIsMasterShard = None\<rparr>
              | Inr (userId, user, users, priv) \<Rightarrow>
                  let m3 = m2\<lparr>knownUsers :=
                                Some (AList.update userId (user\<lparr>lastSeen := now\<rparr>) users)\<rparr>
                  in if isMaster user \<and> masterShardSocket m3 \<noteq> None
                     then \<lparr>after = m3, rejected = Some MasterAlreadyConnected,
                           socketLog = l @ [Disconnect],
                           socketUserId = Some userId, socketIsMasterShard = None\<rparr>
                     else
                       \<lparr>after =
                          (if isMaster user then m3\<lparr>masterShardSocket := Some (socketId socket)\<rparr>
                           else m3\<lparr>shardSockets :=
                                     AList.update userId (socketId socket) (shardSockets m3)\<rparr>),
                        rejected = None,
                        socketLog =
                          l @ [EmitMasterVerification (sign priv (signData now)) (signData now),
                               RefreshShardStatus, Listen ''status'', Listen ''broadcastEval'',
                               Listen ''respawnAll'', Listen ''sendSQL''],
                        socketUserId = Some userId,
                        socketIsMasterShard = Some (isMaster user)\<rparr>)"

text \<open>The history after a run of connection attempts (source address, time) on an empty
  history, under one configuration.\<close>

definition ipHistoryAfter :: "ShardMasterConfig \<Rightarrow> (string \<times> int) list \<Rightarrow> (string \<times> int) list" where
  "ipHistoryAfter cfg atts = foldl (\<lambda>h a. snd (rateLimit cfg (snd a) (fst a) h)) [] atts"

text \<open>The attempts of a list that came from \<open>ip\<close> less than \<^verbatim>\<open>connTime\<close> before \<open>now\<close>.\<close>

definition recentFrom :: "ShardMasterConfig \<Rightarrow> int \<Rightarrow> string \<Rightarrow> (string \<times> int) list \<Rightarrow> (string \<times> int) list" where
  "recentFrom cfg now ip atts = filter (\<lambda>a. \<not> now - snd a \<ge> connTime cfg \<and> ip = fst a) atts"

text \<open>A configuration, stand-ins for the conversion and the signature functions, and a
  master with one shard and one master shard for the worked examples.\<close>

definition exCfg :: ShardMasterConfig where
  "exCfg = \<lparr>heartbeat = exHb, connCount = 2, connTime = 1000, tsPrecision = 10, mailEnabled = False\<rparr>"

definition exToNumber :: "string \<Rightarrow> int option" where
  "exToNumber s =
     (if s \<noteq> [] \<and> list_all (\<lambda>c. c \<in> set ''0123456789'') s
      then Some (foldl (\<lambda>n c. 10 * n + (int (of_char c) - 48)) 0 s) else None)"

definition exVerify :: "string \<Rightarrow> string \<Rightarrow> string \<Rightarrow> bool" where
  "exVerify pub sg dat \<longleftrightarrow> sg = ''sig:'' @ pub @ '':'' @ dat"

definition exSign :: "string \<Rightarrow> string \<Rightarrow> string" where
  "exSign priv dat = ''sig:'' @ priv @ '':'' @ dat"

definition exMaster :: Master where
  "exMaster =
     \<lparr>knownUsers = Some [(''abc'', (exShard ''abc'' 0 1 0 0)\<lparr>key := Some ''PUBabc''\<rparr>),
                         (''mst'', (exShard ''mst'' 1000 1 0 0)\<lparr>key := Some ''PUBmst'', isMaster := True\<rparr>)],
      privKey = Some ''PRIV'', ipConnectHistory = [], sockets = [''s0''],
      shardSockets = [], masterShardSocket = Some ''s0''\<rparr>"

definition exSocket :: "string \<Rightarrow> Socket" where
  "exSocket auth = \<lparr>socketId = ''s1'', ipName = ''1.2.3.4'', authorization = Some auth\<rparr>"


section \<open>Status reports: the \<^verbatim>\<open>status\<close> listener\<close>




section \<open>Broadcast evaluation: \<^verbatim>\<open>broadcastEvalToShards\<close>\<close>

text \<open>
  A call of the callback \<^verbatim>\<open>cb\<close>: with an error, or with \<^verbatim>\<open>null\<close> and the array \<^verbatim>\<open>out\<close>.  The
  array is written by index only, so it is the list of (index, value) pairs.  An error
  is \<open>Some\<close> of it when it is truthy.
\<close>

datatype cbCall = CbError string | CbResult "(int \<times> string) list"

record broadcast =
  numDone :: nat
  err :: "string option"
  out :: "(int \<times> string) list"
  cbCalls :: "cbCall list"

text \<open>The local function \<^verbatim>\<open>done\<close> of lines 995 to 1003.\<close>

definition done_one :: "nat \<Rightarrow> broadcast \<Rightarrow> broadcast" where
  "done_one num b =
     (let b1 = b\<lparr>numDone := numDone b + 1\<rparr>
      in if err b1 \<noteq> None \<and> numDone b1 \<le> num
         then b1\<lparr>cbCalls := cbCalls b1 @ [CbError (the (err b1))], numDone := num + 1\<rparr>
         else if numDone b1 = num
         then b1\<lparr>cbCalls := cbCalls b1 @ [CbResult (out b1)]\<rparr>
         else b1)"

text \<open>
  The \<^verbatim>\<open>forEach\<close> over \<^verbatim>\<open>Object.entries(this._shardSockets)\<close>.  The second component lists
  the requests emitted, each with the socket id and the shard id \<^verbatim>\<open>id\<close> its reply will use.
  A shard name without registry entry makes line 1005 throw a \<^verbatim>\<open>TypeError\<close>, which is
  \<open>None\<close>.
\<close>

fun emitEvalRequests ::
  "nat \<Rightarrow> (string \<times> ShardInfo) list \<Rightarrow> (string \<times> string) list \<Rightarrow>
   broadcast \<times> (string \<times> int) list \<Rightarrow> (broadcast \<times> (string \<times> int) list) option" where
  "emitEvalRequests num users [] be = Some be"
| "emitEvalRequests num users (ent # ents) (b, emitted) =
     (case map_of users (fst ent) of
        None \<Rightarrow> None
      | Some user \<Rightarrow>
          if currentShardId user < 0
          then emitEvalRequests num users ents (done_one num b, emitted)
          else emitEvalRequests num users ents (b, emitted @ [(snd ent, currentShardId user)]))"

definition broadcastEvalToShards ::
  "(string \<times> ShardInfo) list \<Rightarrow> (string \<times> string) list \<Rightarrow>
   (broadcast \<times> (string \<times> int) list) option" where
  "broadcastEvalToShards users shardSocks =
     emitEvalRequests (length shardSocks) users shardSocks
       (\<lparr>numDone = 0, err = None, out = [], cbCalls = []\<rparr>, [])"

text \<open>The acknowledgement of one request (lines 1010 to 1018): \<open>error\<close> and \<open>res\<close> are what
  the shard answered, \<open>i\<close> is the shard id captured when the request was emitted.\<close>

definition evalReply :: "nat \<Rightarrow> int \<Rightarrow> string option \<Rightarrow> string \<Rightarrow> broadcast \<Rightarrow> broadcast" where
  "evalReply num i error res b =
     (case error of
        Some e \<Rightarrow> done_one num (b\<lparr>err := Some e\<rparr>)
      | None \<Rightarrow> done_one num (b\<lparr>out := AList.update i res (out b)\<rparr>))"

text \<open>A run of acknowledgements, in the order they arrive.\<close>

definition evalReplies ::
  "nat \<Rightarrow> (int \<times> string option \<times> string) list \<Rightarrow> broadcast \<Rightarrow> broadcast" where
  "evalReplies num rs b = foldl (\<lambda>b r. evalReply num (fst r) (fst (snd r)) (snd (snd r)) b) b rs"

section \<open>Minting a shard: \<^verbatim>\<open>generateShardConfig\<close>\<close>

text \<open>
  \<^verbatim>\<open>_generateShardName\<close> draws three letters until the name is not a key of the registry.
  The list holds the names drawn, one per round of the loop; \<open>None\<close> when every name of
  the list is taken, so that the loop is still running after the last of them.
\<close>

fun generateShardName :: "string list \<Rightarrow> (string \<times> ShardInfo) list \<Rightarrow> string option" where
  "generateShardName [] users = None"
| "generateShardName (drawn # draws) users =
     (if map_of users drawn \<noteq> None then generateShardName draws users else Some drawn)"

text \<open>What the master does for the operators: a mail process spawned with the failure
  message or with the new configuration file, and \<^verbatim>\<open>_saveUsers\<close>.\<close>

datatype notice = ShardCreateFailEmail string | ShardCreateEmail string | SaveUsers

record mint =
  registryMap :: "(string \<times> ShardInfo) list"
  notices :: "notice list"

text \<open>
  The synchronous part of \<^verbatim>\<open>generateShardConfig\<close> (lines 1107 to 1109): the provisional
  entry is stored under \<^verbatim>\<open>made.id\<close>.  \<open>newShardInfo\<close> is the constructor \<^verbatim>\<open>new ShardInfo(name)\<close>.
  The result is the new entry and the state in which the key generation is awaited.
\<close>

definition generateShardConfig ::
  "(string \<Rightarrow> ShardInfo) \<Rightarrow> string list \<Rightarrow> bool \<Rightarrow> mint \<Rightarrow> (ShardInfo \<times> mint) option" where
  "generateShardConfig newShardInfo draws master m =
     (case generateShardName draws (registryMap m) of
        None \<Rightarrow> None
      | Some name \<Rightarrow>
          let made = newShardInfo name;
              made1 = (if master then made\<lparr>isMaster := True\<rparr> else made)
          in Some (made1, m\<lparr>registryMap := AList.update (shardName made) made1 (registryMap m)\<rparr>))"

text \<open>\<^verbatim>\<open>_sendShardCreateFailEmail\<close> and \<^verbatim>\<open>_sendShardCreateEmail\<close> return at once when
  \<^verbatim>\<open>conf.enabled\<close> is false.\<close>

definition sendShardCreateFailEmail :: "ShardMasterConfig \<Rightarrow> string \<Rightarrow> mint \<Rightarrow> mint" where
  "sendShardCreateFailEmail cfg msg m =
     (if \<not> mailEnabled cfg then m else m\<lparr>notices := notices m @ [ShardCreateFailEmail msg]\<rparr>)"

definition sendShardCreateEmail :: "ShardMasterConfig \<Rightarrow> string \<Rightarrow> mint \<Rightarrow> mint" where
  "sendShardCreateEmail cfg file m =
     (if \<not> mailEnabled cfg then m else m\<lparr>notices := notices m @ [ShardCreateEmail file]\<rparr>)"

text \<open>
  The callback of \<^verbatim>\<open>generateKeyPair\<close> (lines 1110 to 1130): \<open>Inl\<close> is an error, \<open>Inr\<close> the
  public and the private key.  On success \<^verbatim>\<open>made.key = pub\<close> writes to the entry and the
  configuration file is written next; the result names that file.
\<close>

definition keyPairGenerated ::
  "ShardMasterConfig \<Rightarrow> ShardInfo \<Rightarrow> string + string \<times> string \<Rightarrow> mint \<Rightarrow> mint \<times> string option" where
  "keyPairGenerated cfg made r m =
     (case r of
        Inl e \<Rightarrow>
          (sendShardCreateFailEmail cfg ''Failed to generate key-pair!''
             (m\<lparr>registryMap := AList.delete (shardName made) (registryMap m)\<rparr>), None)
      | Inr (pub, priv) \<Rightarrow>
          (m\<lparr>registryMap :=
               map (\<lambda>(k, v). if k = shardName made then (k, v\<lparr>key := Some pub\<rparr>) else (k, v))
                 (registryMap m)\<rparr>,
           Some (''shard_'' @ shardName made @ ''_config.json'')))"

text \<open>The callback of \<^verbatim>\<open>common.mkAndWrite\<close> (lines 1131 to 1143); \<open>failed\<close> says whether it
  got an error.\<close>

definition shardConfigWritten :: "ShardMasterConfig \<Rightarrow> ShardInfo \<Rightarrow> string \<Rightarrow> bool \<Rightarrow> mint \<Rightarrow> mint" where
  "shardConfigWritten cfg made file failed m =
     (if failed
      then sendShardCreateFailEmail cfg (''Failed to save new shard config to disk: '' @ file)
             (m\<lparr>registryMap := AList.delete (shardName made) (registryMap m)\<rparr>)
      else (let m1 = sendShardCreateEmail cfg file m in m1\<lparr>notices := notices m1 @ [SaveUsers]\<rparr>))"


section \<open>The sharding slave: evaluation requests\<close>

text \<open>
  What a callback of \<^verbatim>\<open>_evalRequest\<close> is called with: \<^verbatim>\<open>cb(null, res)\<close> or \<^verbatim>\<open>cb(err)\<close>.
  A promise is pending until it is settled; the callbacks chained to it with
  \<^verbatim>\<open>then(...).catch(...)\<close> wait in the order they were chained.  Callbacks and child
  processes are named by numbers.
\<close>

datatype outcome = Resolved string | Rejected string

record promise =
  settled :: "outcome option"
  waiters :: "nat list"

text \<open>
  The fields of the slave that \<^verbatim>\<open>_evalRequest\<close> uses.  \<^verbatim>\<open>_evals\<close> maps a script to its
  promise, a position in \<open>promises\<close>.  \<open>listeners\<close> are the \<^verbatim>\<open>message\<close> listeners the
  requests have attached, each with the child it is attached to, its script and its
  promise.  \<open>sent\<close> are the messages \<^verbatim>\<open>{_eval: script}\<close> sent, each with the child it went
  to, and \<open>called\<close> are the calls of callbacks so far.
\<close>

record slave =
  child :: "nat option"
  spawned :: nat
  evals :: "(string \<times> nat) list"
  promises :: "promise list"
  listeners :: "(nat \<times> string \<times> nat) list"
  sent :: "(nat \<times> string) list"
  called :: "(nat \<times> outcome) list"


text \<open>\<^verbatim>\<open>resolve\<close> or \<^verbatim>\<open>reject\<close> of a promise: nothing happens when it is settled already.\<close>

definition settle :: "nat \<Rightarrow> outcome \<Rightarrow> slave \<Rightarrow> slave" where
  "settle p r s =
     (case settled (promises s ! p) of
        Some _ \<Rightarrow> s
      | None \<Rightarrow>
          s\<lparr>promises := (promises s)[p := \<lparr>settled = Some r, waiters = []\<rparr>],
            called := called s @ map (\<lambda>cb. (cb, r)) (waiters (promises s ! p))\<rparr>)"



text \<open>The callback of \<^verbatim>\<open>this._child.send\<close> with an error, for the request with promise \<open>p\<close>.
  Without a child, \<^verbatim>\<open>this._child.removeListener\<close> throws and the rest does not run.\<close>

definition sendFailed :: "string \<Rightarrow> nat \<Rightarrow> string \<Rightarrow> slave \<Rightarrow> slave" where
  "sendFailed script p e s =
     (case child s of
        None \<Rightarrow> s
      | Some c \<Rightarrow>
          settle p (Rejected e)
            (s\<lparr>listeners := remove1 (c, script, p) (listeners s),
               evals := AList.delete script (evals s)\<rparr>))"



section \<open>The sharding slave: file relay\<close>

text \<open>
  \<^verbatim>\<open>path.resolve\<close> of one POSIX path that starts with a slash: the segments between
  slashes are read from the left, an empty segment and \<^verbatim>\<open>.\<close> are skipped, \<^verbatim>\<open>..\<close> drops the
  last segment kept so far (nothing above the root), and the result is the slash
  followed by the segments joined with slashes.
\<close>

fun normalizeSegments :: "string list \<Rightarrow> string list \<Rightarrow> string list" where
  "normalizeSegments res [] = res"
| "normalizeSegments res (seg # segs) =
     (if seg = [] \<or> seg = ''.'' then normalizeSegments res segs
      else if seg = ''..'' then normalizeSegments (butlast res) segs
      else normalizeSegments (res @ [seg]) segs)"

fun joinSegments :: "string list \<Rightarrow> string" where
  "joinSegments [] = []"
| "joinSegments [seg] = seg"
| "joinSegments (seg # segs) = seg @ ''/'' @ joinSegments segs"

definition resolve :: "string \<Rightarrow> string" where
  "resolve p = ''/'' @ joinSegments (normalizeSegments [] (split CHR ''/'' p))"

definition startsWith :: "string \<Rightarrow> string \<Rightarrow> bool" where
  "startsWith s p \<longleftrightarrow> take (length p) s = p"

text \<open>
  \<^verbatim>\<open>_receiveMasterFile\<close> (lines 1034 to 1049).  \<open>botCWD\<close> is the project directory, an
  absolute path.  The refusal calls \<^verbatim>\<open>this.logWarning\<close>, which the class does not define, so
  it ends in a \<^verbatim>\<open>TypeError\<close> before the \<^verbatim>\<open>return\<close>; either way nothing is written.
\<close>

datatype written = WriteFile string string | TypeErrorThrown

definition receiveMasterFile :: "string \<Rightarrow> string \<Rightarrow> string \<Rightarrow> written" where
  "receiveMasterFile botCWD filename dat =
     (let file = resolve (botCWD @ ''/'' @ filename)
      in if \<not> startsWith file botCWD then TypeErrorThrown else WriteFile file dat)"

text \<open>
  \<^verbatim>\<open>_sendMasterFile\<close> (lines 1058 to 1077).  \<open>disk\<close> is \<^verbatim>\<open>fs.readFile\<close>, \<open>None\<close> for an error.
  The result is the path that was read, if one was, and what the callback is given,
  \<open>None\<close> for \<^verbatim>\<open>null\<close>.
\<close>

definition sendMasterFile ::
  "string \<Rightarrow> (string \<Rightarrow> string option) \<Rightarrow> string \<Rightarrow> string option \<times> string option" where
  "sendMasterFile botCWD disk filename =
     (let file = resolve (botCWD @ ''/'' @ filename)
      in if \<not> startsWith file botCWD then (None, None) else (Some file, disk file))"

text \<open>A path lies in a directory when the segments of the directory are the first
  segments of the path.\<close>

definition withinDirectory :: "string \<Rightarrow> string \<Rightarrow> bool" where
  "withinDirectory dir file \<longleftrightarrow>
     prefix (normalizeSegments [] (split CHR ''/'' dir)) (normalizeSegments [] (split CHR ''/'' file))"


section \<open>Properties of the reconciliation pass\<close>

lemma find_key_iff:
  "(List.find (\<lambda>f. fst f = a \<and> snd f = b) fs \<noteq> None) \<longleftrightarrow> (a, b) \<in> set fs"
  by (induction fs) auto

lemma resolveLoop_Cons:
  "resolveLoop hb now (r # rs) st =
     (if stale hb now (store st ! r) \<or> goalKey (store st ! r) \<in> set (foundIds st)
      then resolveLoop hb now rs (demoteAt now r st)
      else resolveLoop hb now rs (keepAt r st))"
  apply (simp only: resolveLoop.simps Let_def find_key_iff stale_def goalKey_def
                    demoteAt_def keepAt_def)
  apply (rule if_weak_cong [THEN trans, OF refl])
  by presburger

lemma kept_cong:
  "\<forall>r\<in>set rs. vs ! r = ws ! r \<Longrightarrow> kept hb now vs found rs = kept hb now ws found rs"
  by (induction rs arbitrary: found) auto

lemma kept_subset: "set (kept hb now vs found rs) \<subseteq> set rs"
  by (induction rs arbitrary: found) auto

lemma kept_update:
  "r \<notin> set rs \<Longrightarrow> kept hb now (vs[r := x]) found rs = kept hb now vs found rs"
  by (rule kept_cong) (metis nth_list_update_neq)

lemma resolveLoop_length: "length (store (resolveLoop hb now rs st)) = length (store st)"
  by (induction rs arbitrary: st) (auto simp: Let_def)

lemma resolveLoop_correct:
  "distinct rs \<Longrightarrow>
   correct (resolveLoop hb now rs st) = correct st @ kept hb now (store st) (foundIds st) rs"
proof (induction rs arbitrary: st)
  case Nil
  then show ?case by simp
next
  case (Cons r rs)
  then show ?case
    by (simp add: resolveLoop_Cons demoteAt_def keepAt_def kept_update del: resolveLoop.simps)
qed

lemma resolveLoop_store:
  "distinct rs \<Longrightarrow> i < length (store st) \<Longrightarrow>
   store (resolveLoop hb now rs st) ! i =
     (if i \<in> set rs \<and> i \<notin> set (kept hb now (store st) (foundIds st) rs)
      then shutdownDirective now (store st ! i) else store st ! i)"
proof (induction rs arbitrary: st)
  case Nil
  then show ?case by simp
next
  case (Cons r rs)
  have rn: "r \<notin> set rs" and d: "distinct rs" using Cons.prems(1) by auto
  have sub: "\<And>vs f. r \<notin> set (kept hb now vs f rs)"
    using kept_subset rn by blast
  have sub2: "\<And>vs f. i \<notin> set rs \<Longrightarrow> i \<notin> set (kept hb now vs f rs)"
    using kept_subset by blast
  show ?case
  proof (cases "stale hb now (store st ! r) \<or> goalKey (store st ! r) \<in> set (foundIds st)")
    case True
    have l: "i < length (store (demoteAt now r st))" using Cons.prems(2) by (simp add: demoteAt_def)
    have step: "store (resolveLoop hb now (r # rs) st) ! i =
        (if i \<in> set rs \<and> i \<notin> set (kept hb now (store st) (foundIds st) rs)
         then shutdownDirective now (store (demoteAt now r st) ! i)
         else store (demoteAt now r st) ! i)"
      using Cons.IH[OF d l] True
      by (simp add: resolveLoop_Cons kept_update[OF rn] demoteAt_def del: resolveLoop.simps)
    show ?thesis
    proof (cases "i = r")
      case True
      with step rn sub \<open>stale hb now (store st ! r) \<or> goalKey (store st ! r) \<in> set (foundIds st)\<close>
        Cons.prems(2)
      show ?thesis by (simp add: demoteAt_def)
    next
      case False
      with step True show ?thesis by (simp add: demoteAt_def)
    qed
  next
    case False
    have l: "i < length (store (keepAt r st))" using Cons.prems(2) by (simp add: keepAt_def)
    have step: "store (resolveLoop hb now (r # rs) st) ! i =
        (if i \<in> set rs \<and> i \<notin> set (kept hb now (store st) (foundIds st @ [goalKey (store st ! r)]) rs)
         then shutdownDirective now (store st ! i)
         else store st ! i)"
      using Cons.IH[OF d l] False
      by (simp add: resolveLoop_Cons keepAt_def del: resolveLoop.simps)
    show ?thesis
    proof (cases "i = r")
      case True
      with step rn False show ?thesis by simp
    next
      case ne: False
      with step False show ?thesis by simp
    qed
  qed
qed

lemma resolveLoop_configuring_mono:
  "set (configuring st) \<subseteq> set (configuring (resolveLoop hb now rs st))"
proof (induction rs arbitrary: st)
  case Nil
  then show ?case by simp
next
  case (Cons r rs)
  show ?case
    using Cons.IH[of "demoteAt now r st"] Cons.IH[of "keepAt r st"]
    by (auto simp add: resolveLoop_Cons demoteAt_def keepAt_def simp del: resolveLoop.simps)
qed

lemma resolveLoop_configuring:
  "distinct rs \<Longrightarrow> i \<in> set rs \<Longrightarrow> i \<notin> set (kept hb now (store st) (foundIds st) rs) \<Longrightarrow>
   i \<in> set (configuring (resolveLoop hb now rs st))"
proof (induction rs arbitrary: st)
  case Nil
  then show ?case by simp
next
  case (Cons r rs)
  show ?case
  proof (cases "stale hb now (store st ! r) \<or> goalKey (store st ! r) \<in> set (foundIds st)")
    case True
    show ?thesis
    proof (cases "i = r")
      case True
      have "r \<in> set (configuring (demoteAt now r st))" by (simp add: demoteAt_def)
      then show ?thesis
        using resolveLoop_configuring_mono[of "demoteAt now r st" hb now rs] True
          \<open>stale hb now (store st ! r) \<or> goalKey (store st ! r) \<in> set (foundIds st)\<close>
        by (auto simp add: resolveLoop_Cons simp del: resolveLoop.simps)
    next
      case False
      then show ?thesis
        using Cons.IH[of "demoteAt now r st"] Cons.prems True
        by (auto simp add: resolveLoop_Cons demoteAt_def kept_update simp del: resolveLoop.simps)
    qed
  next
    case False
    then show ?thesis
      using Cons.IH[of "keepAt r st"] Cons.prems
      by (auto simp add: resolveLoop_Cons keepAt_def simp del: resolveLoop.simps)
  qed
qed

lemma kept_not_stale: "i \<in> set (kept hb now vs found rs) \<Longrightarrow> \<not> stale hb now (vs ! i)"
  by (induction rs arbitrary: found) (auto split: if_splits)

lemma kept_stale: "stale hb now (vs ! i) \<Longrightarrow> i \<notin> set (kept hb now vs found rs)"
  using kept_not_stale by blast

lemma kept_found: "goalKey (vs ! i) \<in> set found \<Longrightarrow> i \<notin> set (kept hb now vs found rs)"
  by (induction rs arbitrary: found) (auto split: if_splits)

lemma kept_filter_key:
  "k \<notin> set found \<Longrightarrow>
   filter (\<lambda>r. goalKey (vs ! r) = k) (kept hb now vs found rs) =
     take 1 (filter (\<lambda>r. goalKey (vs ! r) = k \<and> \<not> stale hb now (vs ! r)) rs)"
proof (induction rs arbitrary: found)
  case Nil
  then show ?case by simp
next
  case (Cons r rs)
  have none: "filter (\<lambda>r. goalKey (vs ! r) = k) (kept hb now vs (found @ [k]) rs) = []"
  proof -
    have "\<And>x. x \<in> set (kept hb now vs (found @ [k]) rs) \<Longrightarrow> goalKey (vs ! x) \<noteq> k"
      using kept_found[of vs _ "found @ [k]" hb now rs] by auto
    then show ?thesis by (simp add: filter_empty_conv)
  qed
  show ?case using Cons none by auto
qed

lemma getCurrentConfigured_props:
  "r \<in> set (getCurrentConfigured hb nowC goal vs) \<Longrightarrow>
     r < length vs \<and> \<not> isMaster (vs ! r) \<and> goalShardCount (vs ! r) = goal \<and>
     lastHeartbeat (vs ! r) > nowC - assumeDeadAfter hb"
  by (auto simp: getCurrentConfigured_def)

lemma getCurrentConfigured_distinct: "distinct (getCurrentConfigured hb nowC goal vs)"
  by (simp add: getCurrentConfigured_def)

lemma getCurrentUnconfigured_props:
  "r \<in> set (getCurrentUnconfigured hb nowU goal vs) \<Longrightarrow>
     r < length vs \<and> \<not> isMaster (vs ! r) \<and> goalShardCount (vs ! r) \<noteq> goal"
  by (auto simp: getCurrentUnconfigured_def)

lemma getMasterUser_props:
  "getMasterUser vs = Some m \<Longrightarrow> m < length vs \<and> isMaster (vs ! m)"
  by (auto simp: getMasterUser_def find_Some_iff)

lemma set_sortByBootTime [simp]: "set (sortByBootTime vs rs) = set rs"
  by (simp add: sortByBootTime_def)

lemma distinct_sortByBootTime [simp]: "distinct (sortByBootTime vs rs) = distinct rs"
  by (simp add: sortByBootTime_def)

lemma assignUnbound_nth:
  "i \<notin> set incorrect \<Longrightarrow> fst (assignUnbound now goal newIds incorrect sc) ! i = fst sc ! i"
  by (induction now goal newIds incorrect sc rule: assignUnbound.induct) auto

lemma assignUnbound_conf:
  "set (snd sc) \<subseteq> set (snd (assignUnbound now goal newIds incorrect sc))"
  by (induction now goal newIds incorrect sc rule: assignUnbound.induct) auto

lemma assignMaster_nth:
  "fst (assignMaster goal master sc) ! i = fst sc ! i" if "master \<noteq> Some i"
proof (cases master)
  case None
  then show ?thesis by (simp add: assignMaster_def)
next
  case (Some m)
  with that have "m \<noteq> i" by simp
  then show ?thesis using Some by (simp add: assignMaster_def)
qed

lemma assignMaster_conf: "set (snd sc) \<subseteq> set (snd (assignMaster goal master sc))"
  by (auto simp: assignMaster_def split: option.splits)

text \<open>What one pass leaves at the position of a shard that was in \<open>correct\<close>.\<close>

lemma reconcile_correct_entry:
  fixes hb nowC nowU now goal minted vs
  assumes r: "r \<in> set (getCurrentConfigured hb nowC goal vs)"
  defines "res \<equiv> reconcile hb nowC nowU now goal minted vs"
  defines "ks \<equiv> kept hb now vs [] (sortByBootTime vs (getCurrentConfigured hb nowC goal vs))"
  shows "stillCorrect res = ks"
    and "registry res ! r = (if r \<in> set ks then vs ! r else shutdownDirective now (vs ! r))"
    and "r \<notin> set ks \<Longrightarrow> r \<in> set (queued res)"
proof -
  let ?cor = "getCurrentConfigured hb nowC goal vs"
  let ?rs = "sortByBootTime vs ?cor"
  let ?ini = "\<lparr>store = vs @ minted, correct = [], configuring = [], foundIds = []\<rparr>"
  let ?st = "resolveLoop hb now ?rs ?ini"
  let ?inc = "getCurrentUnconfigured hb nowU goal vs"
  let ?sc1 = "assignUnbound now goal (getCurrentUnboundIds goal vs) ?inc (store ?st, configuring ?st)"
  have P: "r < length vs" "\<not> isMaster (vs ! r)" "goalShardCount (vs ! r) = goal"
    using getCurrentConfigured_props[OF r] by auto
  have d: "distinct ?rs" by (simp add: getCurrentConfigured_distinct)
  have agree: "\<forall>i\<in>set ?rs. (vs @ minted) ! i = vs ! i"
    using getCurrentConfigured_props by (auto simp: nth_append)
  have k0: "kept hb now (vs @ minted) [] ?rs = ks"
    unfolding ks_def by (rule kept_cong[OF agree])
  have reg: "registry res = fst (assignMaster goal (getMasterUser vs) ?sc1)"
    and cor: "stillCorrect res = correct ?st"
    and que: "queued res = snd (assignMaster goal (getMasterUser vs) ?sc1)"
    by (simp_all add: res_def reconcile_def Let_def)
  show "stillCorrect res = ks"
    using resolveLoop_correct[OF d, where st = ?ini and hb = hb and now = now] k0 cor by simp
  have notinc: "r \<notin> set ?inc" using getCurrentUnconfigured_props P by blast
  have notm: "getMasterUser vs \<noteq> Some r" using getMasterUser_props P by blast
  have "registry res ! r = store ?st ! r"
    using assignMaster_nth[OF notm] assignUnbound_nth[OF notinc] reg by simp
  also have "\<dots> = (if r \<in> set ?rs \<and> r \<notin> set ks
      then shutdownDirective now ((vs @ minted) ! r) else (vs @ minted) ! r)"
    using resolveLoop_store[OF d, where i = r and st = ?ini and hb = hb and now = now] P(1) k0 by simp
  finally show "registry res ! r = (if r \<in> set ks then vs ! r else shutdownDirective now (vs ! r))"
    using r P(1) by (simp add: nth_append)
  show "r \<in> set (queued res)" if "r \<notin> set ks"
  proof -
    have "r \<in> set (configuring ?st)"
      using resolveLoop_configuring[OF d, where i = r and st = ?ini and hb = hb and now = now] r that k0 by simp
    then show ?thesis
      using assignUnbound_conf[where sc = "(store ?st, configuring ?st)" and now = now and goal = goal
            and newIds = "getCurrentUnboundIds goal vs" and incorrect = ?inc]
        assignMaster_conf[where sc = ?sc1 and goal = goal and master = "getMasterUser vs"] que by auto
  qed
qed

text \<open>
  Claim C8, with the interval as the code has it.  A shard in \<^verbatim>\<open>correct\<close> whose heartbeat age
  at the pass lies strictly between \<^verbatim>\<open>requestRebootAfter\<close> and \<^verbatim>\<open>expectRebootAfter\<close> leaves the
  correct list, is queued in \<^verbatim>\<open>configuring\<close>, and its registry entry ends the pass with
  \<^verbatim>\<open>goalShardId = -1\<close>, \<^verbatim>\<open>goalShardCount = -1\<close> and \<^verbatim>\<open>stopTime = now\<close>.  Both comparisons of
  line 452 are strict, so the age \<^verbatim>\<open>requestRebootAfter\<close> itself is outside the window.
\<close>

theorem stale_entry_demoted:
  assumes "r \<in> set (getCurrentConfigured hb nowC goal vs)"
    and "requestRebootAfter hb < now - lastHeartbeat (vs ! r)"
    and "now - lastHeartbeat (vs ! r) < expectRebootAfter hb"
  shows "r \<notin> set (stillCorrect (reconcile hb nowC nowU now goal minted vs)) \<and>
         r \<in> set (queued (reconcile hb nowC nowU now goal minted vs)) \<and>
         goalShardId (registry (reconcile hb nowC nowU now goal minted vs) ! r) = - 1 \<and>
         goalShardCount (registry (reconcile hb nowC nowU now goal minted vs) ! r) = - 1 \<and>
         stopTime (registry (reconcile hb nowC nowU now goal minted vs) ! r) = now"
proof -
  have s: "stale hb now (vs ! r)" using assms(2,3) by (simp add: stale_def)
  have nk: "r \<notin> set (kept hb now vs [] (sortByBootTime vs (getCurrentConfigured hb nowC goal vs)))"
    using kept_stale[OF s] .
  show ?thesis
    using reconcile_correct_entry[OF assms(1), where nowU = nowU and now = now and minted = minted] nk
    by (simp add: shutdownDirective_def)
qed

lemma sortByBootTime_sorted: "sorted (map (\<lambda>r. - bootTime (vs ! r)) (sortByBootTime vs rs))"
  by (simp add: sortByBootTime_def)

lemma freshClaimants_hd_latest:
  assumes "i \<in> set (freshClaimants hb now vs k (sortByBootTime vs rs))"
  shows "bootTime (vs ! i) \<le> bootTime (vs ! hd (freshClaimants hb now vs k (sortByBootTime vs rs)))"
proof -
  let ?D = "freshClaimants hb now vs k (sortByBootTime vs rs)"
  have s: "sorted (map (\<lambda>r. - bootTime (vs ! r)) ?D)"
    unfolding freshClaimants_def by (rule sorted_filter) (rule sortByBootTime_sorted)
  from assms obtain d ds where D: "?D = d # ds" by (cases ?D) auto
  with s assms show ?thesis by auto
qed

text \<open>
  Claim C1, restricted to the claimants the loop does not already shut down for silence.
  Let \<open>r\<close> be a shard of \<^verbatim>\<open>correct\<close> that is outside the silence window.  Among the shards of
  \<^verbatim>\<open>correct\<close> that claim the same pair (goal id, goal count) as \<open>r\<close>, exactly one is still in
  \<^verbatim>\<open>correct\<close> after the pass: the first of those outside the window in the order of the sort,
  which has the greatest \<^verbatim>\<open>bootTime\<close> among them.  Its entry is unchanged.  Every other
  claimant of the pair is queued with \<^verbatim>\<open>goalShardId = -1\<close>, \<^verbatim>\<open>goalShardCount = -1\<close> and
  \<^verbatim>\<open>stopTime = now\<close>.
\<close>

theorem duplicate_resolution:
  assumes r: "r \<in> set (getCurrentConfigured hb nowC goal vs)"
    and ns: "\<not> stale hb now (vs ! r)"
  shows "freshClaimants hb now vs (goalKey (vs ! r))
           (sortByBootTime vs (getCurrentConfigured hb nowC goal vs)) \<noteq> [] \<and>
         filter (\<lambda>i. goalKey (vs ! i) = goalKey (vs ! r))
           (stillCorrect (reconcile hb nowC nowU now goal minted vs)) =
           [hd (freshClaimants hb now vs (goalKey (vs ! r))
                 (sortByBootTime vs (getCurrentConfigured hb nowC goal vs)))] \<and>
         registry (reconcile hb nowC nowU now goal minted vs) !
             hd (freshClaimants hb now vs (goalKey (vs ! r))
                  (sortByBootTime vs (getCurrentConfigured hb nowC goal vs))) =
           vs ! hd (freshClaimants hb now vs (goalKey (vs ! r))
                  (sortByBootTime vs (getCurrentConfigured hb nowC goal vs))) \<and>
         (\<forall>i\<in>set (getCurrentConfigured hb nowC goal vs).
            goalKey (vs ! i) = goalKey (vs ! r) \<and>
            i \<noteq> hd (freshClaimants hb now vs (goalKey (vs ! r))
                       (sortByBootTime vs (getCurrentConfigured hb nowC goal vs))) \<longrightarrow>
            i \<notin> set (stillCorrect (reconcile hb nowC nowU now goal minted vs)) \<and>
            i \<in> set (queued (reconcile hb nowC nowU now goal minted vs)) \<and>
            registry (reconcile hb nowC nowU now goal minted vs) ! i =
              shutdownDirective now (vs ! i)) \<and>
         (\<forall>i\<in>set (freshClaimants hb now vs (goalKey (vs ! r))
                      (sortByBootTime vs (getCurrentConfigured hb nowC goal vs))).
            bootTime (vs ! i) \<le>
            bootTime (vs ! hd (freshClaimants hb now vs (goalKey (vs ! r))
                                (sortByBootTime vs (getCurrentConfigured hb nowC goal vs)))))"
proof -
  let ?cor = "getCurrentConfigured hb nowC goal vs"
  let ?rs = "sortByBootTime vs ?cor"
  let ?k = "goalKey (vs ! r)"
  let ?D = "freshClaimants hb now vs ?k ?rs"
  let ?res = "reconcile hb nowC nowU now goal minted vs"
  let ?ks = "kept hb now vs [] ?rs"
  have rD: "r \<in> set ?D" using r ns by (simp add: freshClaimants_def)
  then have ne: "?D \<noteq> []" by auto
  then obtain d ds where D: "?D = d # ds" by (cases ?D) auto
  have dD: "d \<in> set ?D" using D by simp
  then have dcor: "d \<in> set ?cor" and dk: "goalKey (vs ! d) = ?k"
    by (simp_all add: freshClaimants_def)
  have still: "stillCorrect ?res = ?ks"
    using reconcile_correct_entry(1)[OF r] .
  have fk: "filter (\<lambda>i. goalKey (vs ! i) = ?k) ?ks = [d]"
    using kept_filter_key[of ?k "[]" vs hb now ?rs] D by (simp add: freshClaimants_def)
  have dks: "d \<in> set ?ks"
  proof -
    have "d \<in> set (filter (\<lambda>i. goalKey (vs ! i) = ?k) ?ks)" using fk by simp
    then show ?thesis by simp
  qed
  have reg_d: "registry ?res ! d = vs ! d"
    using reconcile_correct_entry(2)[OF dcor, where nowU = nowU and now = now and minted = minted] dks
    by simp
  have others: "i \<notin> set (stillCorrect ?res) \<and> i \<in> set (queued ?res) \<and>
                registry ?res ! i = shutdownDirective now (vs ! i)"
    if i: "i \<in> set ?cor" and ik: "goalKey (vs ! i) = ?k" and id: "i \<noteq> d" for i
  proof -
    have "i \<notin> set ?ks"
    proof
      assume "i \<in> set ?ks"
      with ik have "i \<in> set (filter (\<lambda>i. goalKey (vs ! i) = ?k) ?ks)" by simp
      with fk id show False by simp
    qed
    then show ?thesis
      using reconcile_correct_entry[OF i, where nowU = nowU and now = now and minted = minted]
      by simp
  qed
  have latest: "\<forall>i\<in>set ?D. bootTime (vs ! i) \<le> bootTime (vs ! hd ?D)"
    using freshClaimants_hd_latest by blast
  have hd: "hd ?D = d" using D by simp
  show ?thesis
    using ne still fk reg_d others latest unfolding hd by simp
qed

text \<open>Unbound ids do not depend on heartbeats.\<close>

lemma foldl_remove1_set:
  "distinct ids \<Longrightarrow>
   set (foldl (\<lambda>ids el. if isMaster el then ids
                        else if goalShardCount el = goal then remove1 (goalShardId el) ids
                        else ids) ids vs) =
   set ids - goalShardId ` {el \<in> set vs. \<not> isMaster el \<and> goalShardCount el = goal}"
proof (induction vs arbitrary: ids)
  case Nil
  then show ?case by simp
next
  case (Cons v vs)
  show ?case
  proof (cases "\<not> isMaster v \<and> goalShardCount v = goal")
    case True
    have "distinct (remove1 (goalShardId v) ids)" using Cons.prems by simp
    from Cons.IH[OF this] True Cons.prems show ?thesis by auto
  next
    case False
    with Cons.IH[OF Cons.prems] show ?thesis by auto
  qed
qed

lemma getCurrentUnboundIds_set:
  "set (getCurrentUnboundIds goal vs) =
     {i. 0 \<le> i \<and> i < goal} - goalShardId ` {el \<in> set vs. \<not> isMaster el \<and> goalShardCount el = goal}"
proof (cases "goal < 0")
  case True
  then show ?thesis by (auto simp: getCurrentUnboundIds_def)
next
  case False
  have d: "distinct (map int [0..<nat goal])" by (simp add: distinct_map)
  have s: "set (map int [0..<nat goal]) = {i. 0 \<le> i \<and> i < goal}"
  proof (rule set_eqI)
    fix i show "i \<in> set (map int [0..<nat goal]) \<longleftrightarrow> i \<in> {i. 0 \<le> i \<and> i < goal}"
    proof
      assume "i \<in> set (map int [0..<nat goal])" then show "i \<in> {i. 0 \<le> i \<and> i < goal}" by auto
    next
      assume "i \<in> {i. 0 \<le> i \<and> i < goal}"
      then have "nat i < nat goal" "int (nat i) = i" by auto
      then show "i \<in> set (map int [0..<nat goal])" by (metis atLeastLessThan_iff atLeast_upt image_eqI le0 set_map set_upt)
    qed
  qed
  show ?thesis using False foldl_remove1_set[OF d, of goal vs] s
    by (simp add: getCurrentUnboundIds_def)
qed

text \<open>
  Claim C2, as the code computes the two lists.  An entry whose last heartbeat is
  \<^verbatim>\<open>assumeDeadAfter\<close> or more in the past is not in \<^verbatim>\<open>correct\<close>, before or after the loop.  The
  unbound ids are computed without looking at heartbeats: they are the ids from 0 to
  \<^verbatim>\<open>goal - 1\<close> that no entry other than the master shard with \<^verbatim>\<open>goalShardCount = goal\<close> has
  as its \<^verbatim>\<open>goalShardId\<close>.  So the goal id of a dead entry that still carries the goal count
  is not unbound.
\<close>

theorem dead_entry_stays_bound:
  assumes "r < length vs" and "\<not> isMaster (vs ! r)" and "goalShardCount (vs ! r) = goal"
    and "lastHeartbeat (vs ! r) \<le> nowC - assumeDeadAfter hb"
  shows "r \<notin> set (getCurrentConfigured hb nowC goal vs) \<and>
         r \<notin> set (stillCorrect (reconcile hb nowC nowU now goal minted vs)) \<and>
         goalShardId (vs ! r) \<notin> set (getCurrentUnboundIds goal vs) \<and>
         set (getCurrentUnboundIds goal vs) =
           {i. 0 \<le> i \<and> i < goal} -
           goalShardId ` {el \<in> set vs. \<not> isMaster el \<and> goalShardCount el = goal}"
proof -
  have a: "r \<notin> set (getCurrentConfigured hb nowC goal vs)"
    using assms(4) by (simp add: getCurrentConfigured_def)
  have "set (stillCorrect (reconcile hb nowC nowU now goal minted vs))
          \<subseteq> set (sortByBootTime vs (getCurrentConfigured hb nowC goal vs))"
    using resolveLoop_correct[where rs = "sortByBootTime vs (getCurrentConfigured hb nowC goal vs)"
        and hb = hb and now = now
        and st = "\<lparr>store = vs @ minted, correct = [], configuring = [], foundIds = []\<rparr>"]
      kept_subset[of hb now "vs @ minted" "[]" "sortByBootTime vs (getCurrentConfigured hb nowC goal vs)"]
    by (simp add: reconcile_def Let_def getCurrentConfigured_distinct)
  with a have b: "r \<notin> set (stillCorrect (reconcile hb nowC nowU now goal minted vs))" by auto
  have "vs ! r \<in> {el \<in> set vs. \<not> isMaster el \<and> goalShardCount el = goal}"
    using assms(1-3) by simp
  then have c: "goalShardId (vs ! r) \<notin> set (getCurrentUnboundIds goal vs)"
    unfolding getCurrentUnboundIds_set by blast
  show ?thesis using a b c getCurrentUnboundIds_set by blast
qed

subsection \<open>Worked inputs\<close>

text \<open>A single shard whose heartbeat age is exactly \<^verbatim>\<open>requestRebootAfter\<close> stays in
  \<^verbatim>\<open>correct\<close> with its assignment, and nothing is queued.\<close>

theorem stale_inclusive_counterexample:
  "0 \<in> set (getCurrentConfigured exHb 100 1 [exShard ''abc'' 0 1 90 5]) \<and>
   100 - lastHeartbeat ([exShard ''abc'' 0 1 90 5] ! 0) = requestRebootAfter exHb \<and>
   stillCorrect (reconcile exHb 100 100 100 1 [] [exShard ''abc'' 0 1 90 5]) = [0] \<and>
   goalShardId (registry (reconcile exHb 100 100 100 1 [] [exShard ''abc'' 0 1 90 5]) ! 0) = 0 \<and>
   queued (reconcile exHb 100 100 100 1 [] [exShard ''abc'' 0 1 90 5]) = []"
  by code_simp

text \<open>The same shard at heartbeat age 15, inside the window from 10 to 20.\<close>

theorem stale_entry_demoted_witness:
  "0 \<in> set (getCurrentConfigured exHb 100 1 [exShard ''abc'' 0 1 85 5]) \<and>
   requestRebootAfter exHb < 100 - lastHeartbeat ([exShard ''abc'' 0 1 85 5] ! 0) \<and>
   100 - lastHeartbeat ([exShard ''abc'' 0 1 85 5] ! 0) < expectRebootAfter exHb \<and>
   stillCorrect (reconcile exHb 100 100 100 1 [] [exShard ''abc'' 0 1 85 5]) = [] \<and>
   queued (reconcile exHb 100 100 100 1 [] [exShard ''abc'' 0 1 85 5]) = [0] \<and>
   goalShardId (registry (reconcile exHb 100 100 100 1 [] [exShard ''abc'' 0 1 85 5]) ! 0) = - 1 \<and>
   stopTime (registry (reconcile exHb 100 100 100 1 [] [exShard ''abc'' 0 1 85 5]) ! 0) = 100"
proof -
  have h1: "0 \<in> set (getCurrentConfigured exHb 100 1 [exShard ''abc'' 0 1 85 5])" by code_simp
  have h2: "requestRebootAfter exHb < 100 - lastHeartbeat ([exShard ''abc'' 0 1 85 5] ! 0)" by code_simp
  have h3: "100 - lastHeartbeat ([exShard ''abc'' 0 1 85 5] ! 0) < expectRebootAfter exHb" by code_simp
  have e1: "stillCorrect (reconcile exHb 100 100 100 1 [] [exShard ''abc'' 0 1 85 5]) = []" by code_simp
  have e2: "queued (reconcile exHb 100 100 100 1 [] [exShard ''abc'' 0 1 85 5]) = [0]" by code_simp
  show ?thesis
    using h1 h2 h3 e1 e2 stale_entry_demoted[OF h1 h2 h3, of 100 "[]"] by simp
qed

text \<open>Two live shards claim the pair (0, 1).  The later booted one is inside the silence
  window, so the loop shuts it down first and the earlier booted one keeps the pair.\<close>

theorem duplicate_stale_counterexample:
  "0 \<in> set (getCurrentConfigured exHb 100 1 [exShard ''abc'' 0 1 85 9, exShard ''xyz'' 0 1 95 5]) \<and>
   1 \<in> set (getCurrentConfigured exHb 100 1 [exShard ''abc'' 0 1 85 9, exShard ''xyz'' 0 1 95 5]) \<and>
   goalKey ([exShard ''abc'' 0 1 85 9, exShard ''xyz'' 0 1 95 5] ! 0) =
     goalKey ([exShard ''abc'' 0 1 85 9, exShard ''xyz'' 0 1 95 5] ! 1) \<and>
   bootTime ([exShard ''abc'' 0 1 85 9, exShard ''xyz'' 0 1 95 5] ! 1) <
     bootTime ([exShard ''abc'' 0 1 85 9, exShard ''xyz'' 0 1 95 5] ! 0) \<and>
   stillCorrect (reconcile exHb 100 100 100 1 []
                  [exShard ''abc'' 0 1 85 9, exShard ''xyz'' 0 1 95 5]) = [1] \<and>
   goalShardId (registry (reconcile exHb 100 100 100 1 []
                  [exShard ''abc'' 0 1 85 9, exShard ''xyz'' 0 1 95 5]) ! 0) = - 1 \<and>
   goalShardId (registry (reconcile exHb 100 100 100 1 []
                  [exShard ''abc'' 0 1 85 9, exShard ''xyz'' 0 1 95 5]) ! 1) = 0"
  by code_simp

text \<open>Two live shards outside the window claim the pair (0, 1); the later booted one
  keeps it and the other is queued for shutdown.\<close>

theorem duplicate_resolution_witness:
  "0 \<in> set (getCurrentConfigured exHb 100 1 [exShard ''abc'' 0 1 95 5, exShard ''xyz'' 0 1 96 9]) \<and>
   \<not> stale exHb 100 ([exShard ''abc'' 0 1 95 5, exShard ''xyz'' 0 1 96 9] ! 0) \<and>
   hd (freshClaimants exHb 100 [exShard ''abc'' 0 1 95 5, exShard ''xyz'' 0 1 96 9]
         (goalKey ([exShard ''abc'' 0 1 95 5, exShard ''xyz'' 0 1 96 9] ! 0))
         (sortByBootTime [exShard ''abc'' 0 1 95 5, exShard ''xyz'' 0 1 96 9]
            (getCurrentConfigured exHb 100 1 [exShard ''abc'' 0 1 95 5, exShard ''xyz'' 0 1 96 9]))) = 1 \<and>
   filter (\<lambda>i. goalKey ([exShard ''abc'' 0 1 95 5, exShard ''xyz'' 0 1 96 9] ! i) =
                goalKey ([exShard ''abc'' 0 1 95 5, exShard ''xyz'' 0 1 96 9] ! 0))
     (stillCorrect (reconcile exHb 100 100 100 1 []
        [exShard ''abc'' 0 1 95 5, exShard ''xyz'' 0 1 96 9])) = [1] \<and>
   registry (reconcile exHb 100 100 100 1 []
        [exShard ''abc'' 0 1 95 5, exShard ''xyz'' 0 1 96 9]) ! 1 = exShard ''xyz'' 0 1 96 9 \<and>
   registry (reconcile exHb 100 100 100 1 []
        [exShard ''abc'' 0 1 95 5, exShard ''xyz'' 0 1 96 9]) ! 0 =
     shutdownDirective 100 (exShard ''abc'' 0 1 95 5) \<and>
   0 \<in> set (queued (reconcile exHb 100 100 100 1 []
        [exShard ''abc'' 0 1 95 5, exShard ''xyz'' 0 1 96 9]))"
proof -
  let ?vs = "[exShard ''abc'' 0 1 95 5, exShard ''xyz'' 0 1 96 9]"
  have c: "getCurrentConfigured exHb 100 1 ?vs = [0, 1]" by code_simp
  have h1: "0 \<in> set (getCurrentConfigured exHb 100 1 ?vs)" by (simp add: c)
  have h2: "\<not> stale exHb 100 (?vs ! 0)" by code_simp
  have e: "hd (freshClaimants exHb 100 ?vs (goalKey (?vs ! 0))
         (sortByBootTime ?vs (getCurrentConfigured exHb 100 1 ?vs))) = 1" by code_simp
  have k: "goalKey (?vs ! 1) = goalKey (?vs ! 0)" by code_simp
  show ?thesis
    using h1 h2 e k duplicate_resolution[OF h1 h2, where nowU = 100 and minted = "[]"] by (simp add: c)
qed

text \<open>A shard last heard of 50 ms ago with \<^verbatim>\<open>assumeDeadAfter = 30\<close>: it is not in
  \<^verbatim>\<open>correct\<close>, and its goal id 0 is not unbound.\<close>

theorem dead_entry_unbound_counterexample:
  "lastHeartbeat ([exShard ''abc'' 0 1 50 5] ! 0) \<le> 100 - assumeDeadAfter exHb \<and>
   getCurrentConfigured exHb 100 1 [exShard ''abc'' 0 1 50 5] = [] \<and>
   goalShardId ([exShard ''abc'' 0 1 50 5] ! 0) \<notin> set (getCurrentUnboundIds 1 [exShard ''abc'' 0 1 50 5]) \<and>
   getCurrentUnboundIds 1 [exShard ''abc'' 0 1 50 5] = []"
  by code_simp

text \<open>The general statement at that input.\<close>

theorem dead_entry_stays_bound_witness:
  "0 < length [exShard ''abc'' 0 1 50 5] \<and> \<not> isMaster ([exShard ''abc'' 0 1 50 5] ! 0) \<and>
   goalShardCount ([exShard ''abc'' 0 1 50 5] ! 0) = 1 \<and>
   lastHeartbeat ([exShard ''abc'' 0 1 50 5] ! 0) \<le> 100 - assumeDeadAfter exHb \<and>
   0 \<notin> set (getCurrentConfigured exHb 100 1 [exShard ''abc'' 0 1 50 5]) \<and>
   goalShardId ([exShard ''abc'' 0 1 50 5] ! 0) \<notin> set (getCurrentUnboundIds 1 [exShard ''abc'' 0 1 50 5])"
proof -
  let ?vs = "[exShard ''abc'' 0 1 50 5]"
  have h1: "0 < length ?vs" by simp
  have h2: "\<not> isMaster (?vs ! 0)" by code_simp
  have h3: "goalShardCount (?vs ! 0) = 1" by code_simp
  have h4: "lastHeartbeat (?vs ! 0) \<le> 100 - assumeDeadAfter exHb" by code_simp
  show ?thesis
    using h1 h2 h3 h4 dead_entry_stays_bound[OF h1 h2 h3 h4, of 100 100 "[]"] by simp
qed


section \<open>Properties of the connection handler\<close>

subsection \<open>The rate limiter\<close>

lemma scanHistory_count:
  "(snd (scanHistory cc ct now ip hs i rem c) \<ge> cc) \<longleftrightarrow>
   cc \<le> c + int (length (filter (\<lambda>a. \<not> now - snd a \<ge> ct \<and> ip = fst a) hs))"
  by (induction hs arbitrary: i rem c) auto

lemma scanHistory_remove:
  "fst (scanHistory cc ct now ip hs i rem c) = rem \<or>
   (i < fst (scanHistory cc ct now ip hs i rem c) \<and>
    fst (scanHistory cc ct now ip hs i rem c) \<le> i + length hs \<and>
    now - snd (hs ! (fst (scanHistory cc ct now ip hs i rem c) - i - 1)) \<ge> ct)"
proof (induction hs arbitrary: i rem c)
  case Nil
  then show ?case by simp
next
  case (Cons h hs)
  show ?case
  proof (cases "c < cc")
    case False
    then show ?thesis by simp
  next
    case lt: True
    show ?thesis
    proof (cases "now - snd h \<ge> ct")
      case True
      let ?r = "fst (scanHistory cc ct now ip hs (Suc i) (Suc i) c)"
      have eq: "fst (scanHistory cc ct now ip (h # hs) i rem c) = ?r" using lt True by simp
      from Cons.IH[of "Suc i" "Suc i" c]
      have "?r = Suc i \<or> (Suc i < ?r \<and> ?r \<le> Suc i + length hs \<and>
              now - snd (hs ! (?r - Suc i - 1)) \<ge> ct)" .
      then show ?thesis
      proof
        assume "?r = Suc i"
        then show ?thesis using eq True by simp
      next
        assume a: "Suc i < ?r \<and> ?r \<le> Suc i + length hs \<and> now - snd (hs ! (?r - Suc i - 1)) \<ge> ct"
        then have "?r - i - 1 = Suc (?r - Suc i - 1)" by arith
        then have "(h # hs) ! (?r - i - 1) = hs ! (?r - Suc i - 1)" by simp
        with a eq show ?thesis by auto
      qed
    next
      case False
      let ?c = "if ip = fst h then c + 1 else c"
      let ?r = "fst (scanHistory cc ct now ip hs (Suc i) rem ?c)"
      have eq: "fst (scanHistory cc ct now ip (h # hs) i rem c) = ?r" using lt False by simp
      from Cons.IH[of "Suc i" rem ?c]
      have "?r = rem \<or> (Suc i < ?r \<and> ?r \<le> Suc i + length hs \<and>
              now - snd (hs ! (?r - Suc i - 1)) \<ge> ct)" .
      then show ?thesis
      proof
        assume "?r = rem"
        then show ?thesis using eq by simp
      next
        assume a: "Suc i < ?r \<and> ?r \<le> Suc i + length hs \<and> now - snd (hs ! (?r - Suc i - 1)) \<ge> ct"
        then have "?r - i - 1 = Suc (?r - Suc i - 1)" by arith
        then have "(h # hs) ! (?r - i - 1) = hs ! (?r - Suc i - 1)" by simp
        with a eq show ?thesis by auto
      qed
    qed
  qed
qed

lemma scanHistory_remove_expired:
  assumes "sorted (map snd hs)" and "j < fst (scanHistory cc ct now ip hs 0 0 c)"
  shows "j < length hs \<and> now - snd (hs ! j) \<ge> ct"
proof -
  let ?r = "fst (scanHistory cc ct now ip hs 0 0 c)"
  from scanHistory_remove[of cc ct now ip hs 0 0 c] assms(2)
  have r: "0 < ?r" "?r \<le> length hs" "now - snd (hs ! (?r - 1)) \<ge> ct" by auto
  have jl: "j < length hs" and jr: "j \<le> ?r - 1" and rl: "?r - 1 < length hs"
    using assms(2) r by auto
  have "map snd hs ! j \<le> map snd hs ! (?r - 1)"
    using assms(1) jr rl by (simp add: sorted_iff_nth_mono del: nth_map)
  then have "snd (hs ! j) \<le> snd (hs ! (?r - 1))" using jl rl by simp
  with r(3) jl show ?thesis by simp
qed

lemma filter_drop_irrelevant:
  "\<forall>j<n. j < length xs \<longrightarrow> \<not> P (xs ! j) \<Longrightarrow> filter P (drop n xs) = filter P xs"
proof (induction n arbitrary: xs)
  case 0
  then show ?case by simp
next
  case (Suc n)
  show ?case
  proof (cases xs)
    case Nil
    then show ?thesis by simp
  next
    case (Cons x xs')
    have "\<not> P x" using Suc.prems Cons by auto
    moreover have "\<forall>j<n. j < length xs' \<longrightarrow> \<not> P (xs' ! j)" using Suc.prems Cons by auto
    ultimately show ?thesis using Suc.IH[of xs'] Cons by simp
  qed
qed

lemma rateLimit_fst:
  "fst (rateLimit cfg now ip hist) \<longleftrightarrow>
   connCount cfg \<le> int (length (recentFrom cfg now ip (hist @ [(ip, now)])))"
proof -
  have "fst (rateLimit cfg now ip hist) \<longleftrightarrow>
        snd (scanHistory (connCount cfg) (connTime cfg) now ip (hist @ [(ip, now)]) 0 0 0)
          \<ge> connCount cfg"
    by (simp add: rateLimit_def Let_def case_prod_beta)
  then show ?thesis
    unfolding recentFrom_def
    using scanHistory_count[of "connCount cfg" "connTime cfg" now ip "hist @ [(ip, now)]" 0 0 0]
    by (simp only: of_nat_0 add_0)
qed

lemma rateLimit_snd:
  assumes "sorted (map snd (hist @ [(ip, now)]))"
  shows "\<exists>r \<le> length hist + 1. snd (rateLimit cfg now ip hist) = drop r (hist @ [(ip, now)]) \<and>
           (\<forall>j<r. now - snd ((hist @ [(ip, now)]) ! j) \<ge> connTime cfg)"
proof -
  let ?p = "hist @ [(ip, now)]"
  let ?r = "fst (scanHistory (connCount cfg) (connTime cfg) now ip ?p 0 0 0)"
  have e: "\<forall>j<?r. j < length ?p \<and> now - snd (?p ! j) \<ge> connTime cfg"
    using scanHistory_remove_expired[OF assms] by blast
  have le: "?r \<le> length hist + 1"
    using scanHistory_remove[of "connCount cfg" "connTime cfg" now ip ?p 0 0 0] by auto
  have s: "snd (rateLimit cfg now ip hist) = drop ?r ?p"
    by (simp add: rateLimit_def Let_def case_prod_beta)
  show ?thesis using e le s by blast
qed

lemma ipHistoryAfter_snoc:
  "ipHistoryAfter cfg (atts @ [a]) = snd (rateLimit cfg (snd a) (fst a) (ipHistoryAfter cfg atts))"
  by (simp add: ipHistoryAfter_def)

lemma ipHistoryAfter_suffix:
  "sorted (map snd atts) \<Longrightarrow>
   \<exists>n \<le> length atts. ipHistoryAfter cfg atts = drop n atts \<and>
     (\<forall>j<n. \<forall>now'. snd (last atts) \<le> now' \<longrightarrow> now' - snd (atts ! j) \<ge> connTime cfg)"
proof (induction atts rule: rev_induct)
  case Nil
  then show ?case by (simp add: ipHistoryAfter_def)
next
  case (snoc a atts)
  obtain ip now where a: "a = (ip, now)" by (cases a)
  have sa: "sorted (map snd atts)" using snoc.prems by (simp add: sorted_append)
  have le_now: "\<forall>x\<in>set atts. snd x \<le> now" using snoc.prems a by (auto simp: sorted_append)
  from snoc.IH[OF sa] obtain n where n: "n \<le> length atts" "ipHistoryAfter cfg atts = drop n atts"
    "\<forall>j<n. \<forall>now'. snd (last atts) \<le> now' \<longrightarrow> now' - snd (atts ! j) \<ge> connTime cfg" by blast
  let ?h = "drop n atts"
  have sh: "sorted (map snd (?h @ [(ip, now)]))"
  proof -
    have "?h @ [(ip, now)] = drop n (atts @ [a])" using n(1) a by simp
    moreover have "sorted (drop n (map snd (atts @ [a])))"
      using snoc.prems by (rule sorted_wrt_drop)
    ultimately show ?thesis by (simp only: drop_map)
  qed
  from rateLimit_snd[OF sh, of cfg] obtain r where r: "r \<le> length ?h + 1"
    "snd (rateLimit cfg now ip ?h) = drop r (?h @ [(ip, now)])"
    "\<forall>j<r. now - snd ((?h @ [(ip, now)]) ! j) \<ge> connTime cfg" by blast
  have h_eq: "?h @ [(ip, now)] = drop n (atts @ [a])" using n(1) a by simp
  have res: "ipHistoryAfter cfg (atts @ [a]) = drop (n + r) (atts @ [a])"
    using r(2) n(2) a h_eq by (simp add: ipHistoryAfter_snoc add.commute del: drop_append)
  have bound: "n + r \<le> length (atts @ [a])" using r(1) n(1) by simp
  have old: "now' - snd ((atts @ [a]) ! j) \<ge> connTime cfg"
    if "j < n + r" "now \<le> now'" for j now'
  proof (cases "j < n")
    case True
    then have jl: "j < length atts" using n(1) by simp
    have "atts \<noteq> []" using jl by auto
    then have "last atts \<in> set atts" by simp
    then have "snd (last atts) \<le> now'"
      using le_now that(2) by fastforce
    with n(3) True have "now' - snd (atts ! j) \<ge> connTime cfg" by blast
    then show ?thesis using jl by (simp add: nth_append)
  next
    case False
    then have "j - n < r" using that(1) by simp
    with r(3) have "now - snd ((?h @ [(ip, now)]) ! (j - n)) \<ge> connTime cfg" by blast
    moreover have "(?h @ [(ip, now)]) ! (j - n) = (atts @ [a]) ! j"
    proof -
      have "drop n (atts @ [a]) ! (j - n) = (atts @ [a]) ! (n + (j - n))"
        using n(1) by (intro nth_drop) simp
      moreover have "n + (j - n) = j" using False by simp
      ultimately show ?thesis unfolding h_eq by simp
    qed
    ultimately show ?thesis using that(2) by simp
  qed
  show ?case
    using res bound old by (intro exI[of _ "n + r"]) (simp add: a)
qed

lemma recentFrom_ipHistoryAfter:
  assumes "sorted (map snd (atts @ [(ip, now)]))"
  shows "recentFrom cfg now ip (ipHistoryAfter cfg atts @ [(ip, now)]) =
         recentFrom cfg now ip (atts @ [(ip, now)])"
proof -
  have sa: "sorted (map snd atts)" using assms by (simp add: sorted_append)
  from ipHistoryAfter_suffix[OF sa, of cfg] obtain n where n: "n \<le> length atts"
    "ipHistoryAfter cfg atts = drop n atts"
    "\<forall>j<n. \<forall>now'. snd (last atts) \<le> now' \<longrightarrow> now' - snd (atts ! j) \<ge> connTime cfg" by blast
  have "\<forall>j<n. j < length atts \<longrightarrow> \<not> (\<not> now - snd (atts ! j) \<ge> connTime cfg \<and> ip = fst (atts ! j))"
  proof (intro allI impI)
    fix j assume j: "j < n" "j < length atts"
    then have "atts \<noteq> []" by auto
    then have "snd (last atts) \<le> now" using assms by (auto simp: sorted_append)
    with n(3) j show "\<not> (\<not> now - snd (atts ! j) \<ge> connTime cfg \<and> ip = fst (atts ! j))" by blast
  qed
  from filter_drop_irrelevant[where P = "\<lambda>a. \<not> now - snd a \<ge> connTime cfg \<and> ip = fst a", OF this]
  show ?thesis using n(2) by (simp add: recentFrom_def)
qed

subsection \<open>The handshake\<close>

lemma checkHandshake_reason:
  "checkHandshake cfg verify toNumber now m socket = Inl why \<Longrightarrow>
     why \<noteq> RateLimited \<and> why \<noteq> MasterAlreadyConnected"
  by (auto simp: checkHandshake_def Let_def split: option.splits if_splits)

lemma socketConnection_limited:
  "fst (rateLimit cfg now (ipName socket) (ipConnectHistory m)) \<Longrightarrow>
   socketConnection cfg verify sign toNumber now m socket =
     \<lparr>after = m\<lparr>ipConnectHistory := snd (rateLimit cfg now (ipName socket) (ipConnectHistory m))\<rparr>,
      rejected = Some RateLimited, socketLog = [Disconnect],
      socketUserId = None, socketIsMasterShard = None\<rparr>"
  by (simp add: socketConnection_def case_prod_beta)

lemma socketConnection_history:
  "ipConnectHistory (after (socketConnection cfg verify sign toNumber now m socket)) =
     snd (rateLimit cfg now (ipName socket) (ipConnectHistory m))"
  by (simp add: socketConnection_def case_prod_beta Let_def split: sum.splits)

lemma socketConnection_passed:
  "\<not> fst (rateLimit cfg now (ipName socket) (ipConnectHistory m)) \<Longrightarrow>
   rejected (socketConnection cfg verify sign toNumber now m socket) \<noteq> Some RateLimited"
  using checkHandshake_reason
  by (auto simp add: socketConnection_def case_prod_beta Let_def split: sum.splits)

lemma socketConnection_refused:
  assumes "rejected (socketConnection cfg verify sign toNumber now m socket) \<noteq> None"
  shows "Listen ''status'' \<notin> set (socketLog (socketConnection cfg verify sign toNumber now m socket))"
    and "EmitMasterVerification s d \<notin> set (socketLog (socketConnection cfg verify sign toNumber now m socket))"
    and "shardSockets (after (socketConnection cfg verify sign toNumber now m socket)) = shardSockets m"
    and "masterShardSocket (after (socketConnection cfg verify sign toNumber now m socket)) = masterShardSocket m"
    and "last (socketLog (socketConnection cfg verify sign toNumber now m socket)) = Disconnect"
  using assms
  by (auto simp add: socketConnection_def case_prod_beta Let_def split: sum.splits if_splits)

lemma socketConnection_registry:
  assumes "rejected (socketConnection cfg verify sign toNumber now m socket) = Some why"
    and "why \<noteq> MasterAlreadyConnected"
  shows "knownUsers (after (socketConnection cfg verify sign toNumber now m socket)) = knownUsers m"
  using assms
  by (auto simp add: socketConnection_def case_prod_beta Let_def split: sum.splits if_splits)

text \<open>
  Claim C3, with the count as the code takes it.  Let the history be the one left by a run
  of attempts \<open>atts\<close> with times in order, and let a socket connect at \<open>now\<close>.  The handler
  refuses it for the rate limit exactly when \<^verbatim>\<open>connCount\<close> or more attempts from its address,
  the present one counted, lie less than \<^verbatim>\<open>connTime\<close> before \<open>now\<close>.  So with a limit of
  \<open>N\<close> the first \<open>N - 1\<close> attempts inside the window pass the limiter and the \<open>N\<close>-th is
  refused.  A socket refused for the rate limit is only disconnected: no \<^verbatim>\<open>masterVerification\<close>
  is emitted, no listener is registered and the registry is unchanged.
\<close>

theorem connection_rate_limit:
  assumes "sorted (map snd (atts @ [(ipName socket, now)]))"
    and "ipConnectHistory m = ipHistoryAfter cfg atts"
  shows "(rejected (socketConnection cfg verify sign toNumber now m socket) = Some RateLimited \<longleftrightarrow>
            connCount cfg \<le>
              int (length (recentFrom cfg now (ipName socket) (atts @ [(ipName socket, now)])))) \<and>
         (rejected (socketConnection cfg verify sign toNumber now m socket) = Some RateLimited \<longrightarrow>
            socketLog (socketConnection cfg verify sign toNumber now m socket) = [Disconnect] \<and>
            knownUsers (after (socketConnection cfg verify sign toNumber now m socket)) =
              knownUsers m) \<and>
         ipConnectHistory (after (socketConnection cfg verify sign toNumber now m socket)) =
           ipHistoryAfter cfg (atts @ [(ipName socket, now)])"
proof -
  let ?res = "socketConnection cfg verify sign toNumber now m socket"
  let ?lim = "fst (rateLimit cfg now (ipName socket) (ipConnectHistory m))"
  have lim: "?lim \<longleftrightarrow>
      connCount cfg \<le> int (length (recentFrom cfg now (ipName socket) (atts @ [(ipName socket, now)])))"
    using rateLimit_fst[of cfg now "ipName socket" "ipConnectHistory m"]
      recentFrom_ipHistoryAfter[OF assms(1), of cfg] assms(2) by simp
  have a: "rejected ?res = Some RateLimited \<longleftrightarrow> ?lim"
  proof
    assume "rejected ?res = Some RateLimited"
    then show ?lim using socketConnection_passed by blast
  next
    assume ?lim
    then show "rejected ?res = Some RateLimited" by (simp add: socketConnection_limited)
  qed
  have b: "socketLog ?res = [Disconnect] \<and> knownUsers (after ?res) = knownUsers m"
    if "rejected ?res = Some RateLimited"
  proof -
    from that a have ?lim by simp
    then show ?thesis by (simp add: socketConnection_limited)
  qed
  have c: "ipConnectHistory (after ?res) = ipHistoryAfter cfg (atts @ [(ipName socket, now)])"
    using assms(2) by (simp add: socketConnection_history ipHistoryAfter_snoc)
  show ?thesis using a lim b c by blast
qed

text \<open>
  Claim C4, without the refusal of a second master shard.  A refused socket is sent no
  \<^verbatim>\<open>masterVerification\<close>, gets no \<^verbatim>\<open>status\<close> listener, is not entered into \<^verbatim>\<open>_shardSockets\<close> or
  \<^verbatim>\<open>_masterShardSocket\<close> (so no \<^verbatim>\<open>evalRequest\<close> is ever sent to it), and the last thing done
  to it is the disconnect.  Unless the refusal is the one of line 900, of a verified master
  shard while another master socket is connected, the registry is unchanged, and with it
  \<^verbatim>\<open>lastSeen\<close> of the presented id.
\<close>

theorem rejected_connection_frame:
  assumes "rejected (socketConnection cfg verify sign toNumber now m socket) = Some why"
  shows "Listen ''status'' \<notin> set (socketLog (socketConnection cfg verify sign toNumber now m socket)) \<and>
         (\<forall>s d. EmitMasterVerification s d \<notin>
                  set (socketLog (socketConnection cfg verify sign toNumber now m socket))) \<and>
         last (socketLog (socketConnection cfg verify sign toNumber now m socket)) = Disconnect \<and>
         shardSockets (after (socketConnection cfg verify sign toNumber now m socket)) =
           shardSockets m \<and>
         masterShardSocket (after (socketConnection cfg verify sign toNumber now m socket)) =
           masterShardSocket m \<and>
         (why \<noteq> MasterAlreadyConnected \<longrightarrow>
            knownUsers (after (socketConnection cfg verify sign toNumber now m socket)) =
              knownUsers m)"
proof -
  have r: "rejected (socketConnection cfg verify sign toNumber now m socket) \<noteq> None"
    using assms by simp
  show ?thesis
    using socketConnection_refused[OF r] socketConnection_registry[OF assms] by blast
qed


subsection \<open>Worked inputs\<close>

text \<open>With a limit of two attempts per second, the second attempt from an address, one
  millisecond after the first, is refused.\<close>

theorem rate_limit_counterexample:
  "connCount exCfg = 2 \<and>
   ipHistoryAfter exCfg [(''1.2.3.4'', 0)] = [(''1.2.3.4'', 0)] \<and>
   (1::int) - 0 < connTime exCfg \<and>
   rejected (socketConnection exCfg exVerify exSign exToNumber 1
     (exMaster\<lparr>ipConnectHistory := [(''1.2.3.4'', 0)]\<rparr>) (exSocket ''abc,bad,1'')) = Some RateLimited"
  by (simp add: socketConnection_def rateLimit_def ipHistoryAfter_def exCfg_def exMaster_def
      exSocket_def)

text \<open>The general statement at that second attempt.\<close>

theorem connection_rate_limit_witness:
  "sorted (map snd ([(''1.2.3.4'', 0::int)] @ [(ipName (exSocket ''abc,bad,1''), 1)])) \<and>
   ipConnectHistory (exMaster\<lparr>ipConnectHistory := [(''1.2.3.4'', 0)]\<rparr>) =
     ipHistoryAfter exCfg [(''1.2.3.4'', 0)] \<and>
   rejected (socketConnection exCfg exVerify exSign exToNumber 1
     (exMaster\<lparr>ipConnectHistory := [(''1.2.3.4'', 0)]\<rparr>) (exSocket ''abc,bad,1'')) = Some RateLimited \<and>
   socketLog (socketConnection exCfg exVerify exSign exToNumber 1
     (exMaster\<lparr>ipConnectHistory := [(''1.2.3.4'', 0)]\<rparr>) (exSocket ''abc,bad,1'')) = [Disconnect]"
proof -
  let ?m = "exMaster\<lparr>ipConnectHistory := [(''1.2.3.4'', 0)]\<rparr>"
  have h1: "sorted (map snd ([(''1.2.3.4'', 0::int)] @ [(ipName (exSocket ''abc,bad,1''), 1)]))"
    by simp
  have h2: "ipConnectHistory ?m = ipHistoryAfter exCfg [(''1.2.3.4'', 0)]"
    by (simp add: rateLimit_def ipHistoryAfter_def exCfg_def)
  have c: "connCount exCfg \<le> int (length (recentFrom exCfg 1 (ipName (exSocket ''abc,bad,1''))
             ([(''1.2.3.4'', 0)] @ [(ipName (exSocket ''abc,bad,1''), 1)])))"
    by (simp add: recentFrom_def exCfg_def exSocket_def)
  note T = connection_rate_limit[OF h1 h2, of exVerify exSign exToNumber]
  have r: "rejected (socketConnection exCfg exVerify exSign exToNumber 1 ?m (exSocket ''abc,bad,1''))
          = Some RateLimited"
    using T[THEN conjunct1] c by (rule iffD2)
  have l: "socketLog (socketConnection exCfg exVerify exSign exToNumber 1 ?m (exSocket ''abc,bad,1''))
          = [Disconnect]"
    using T[THEN conjunct2, THEN conjunct1, THEN mp, OF r] by (rule conjunct1)
  show ?thesis
    using h1 h2 r l by (intro conjI)
qed

text \<open>The master shard presents a valid signature while a master socket is connected:
  the connection is refused and \<^verbatim>\<open>lastSeen\<close> of its entry moves from 0 to 100.\<close>

theorem master_duplicate_counterexample:
  "rejected (socketConnection exCfg exVerify exSign exToNumber 100 exMaster
      (exSocket ''mst,sig:PUBmst:mst100,100'')) = Some MasterAlreadyConnected \<and>
   map_option lastSeen (map_of (the (knownUsers exMaster)) ''mst'') = Some 0 \<and>
   map_option lastSeen (map_of (the (knownUsers (after
     (socketConnection exCfg exVerify exSign exToNumber 100 exMaster
        (exSocket ''mst,sig:PUBmst:mst100,100''))))) ''mst'') = Some 100"
  by code_simp

text \<open>A shard with a signature that does not verify.\<close>

theorem rejected_connection_frame_witness:
  "rejected (socketConnection exCfg exVerify exSign exToNumber 100 exMaster
      (exSocket ''abc,bad,100'')) = Some VerifyFailed \<and>
   Listen ''status'' \<notin> set (socketLog (socketConnection exCfg exVerify exSign exToNumber 100
      exMaster (exSocket ''abc,bad,100''))) \<and>
   knownUsers (after (socketConnection exCfg exVerify exSign exToNumber 100 exMaster
      (exSocket ''abc,bad,100''))) = knownUsers exMaster"
proof -
  have h: "rejected (socketConnection exCfg exVerify exSign exToNumber 100 exMaster
      (exSocket ''abc,bad,100'')) = Some VerifyFailed"
    by (simp add: socketConnection_def checkHandshake_def rateLimit_def exCfg_def exMaster_def
        exSocket_def exVerify_def exToNumber_def exShard_def)
  from rejected_connection_frame[OF h] have
    "Listen ''status'' \<notin> set (socketLog (socketConnection exCfg exVerify exSign exToNumber 100
      exMaster (exSocket ''abc,bad,100''))) \<and>
     knownUsers (after (socketConnection exCfg exVerify exSign exToNumber 100 exMaster
      (exSocket ''abc,bad,100''))) = knownUsers exMaster"
    by simp
  with h show ?thesis by blast
qed


section \<open>Properties of status reports, minting and broadcast\<close>




lemma update_fresh: "map_of al k = None \<Longrightarrow> AList.update k v al = al @ [(k, v)]"
  by (induction al) (auto split: if_splits)

lemma delete_update_fresh: "map_of al k = None \<Longrightarrow> AList.delete k (AList.update k v al) = al"
  by (induction al) (auto split: if_splits)

lemma generateShardName_fresh:
  "generateShardName draws users = Some name \<Longrightarrow> map_of users name = None \<and> name \<in> set draws"
  by (induction draws) (auto split: if_splits)

lemma generateShardName_returns:
  "\<exists>d\<in>set draws. map_of users d = None \<Longrightarrow> generateShardName draws users \<noteq> None"
  by (induction draws) auto

lemma generateShardConfig_returns:
  "\<exists>d\<in>set draws. map_of (registryMap m) d = None \<Longrightarrow>
   generateShardConfig newShardInfo draws master m \<noteq> None"
  using generateShardName_returns[of draws "registryMap m"]
  by (auto simp: generateShardConfig_def Let_def split: option.splits)

text \<open>
  Claim C9, with the notification as the configuration allows it.  When the key generation
  of a mint fails, the provisional entry is deleted and the registry is the list it was
  before the mint; nothing is written to disk.  The failure mail is sent when
  \<^verbatim>\<open>mail.enabled\<close> is set in the configuration, and nothing is sent when it is not.  The
  constructor is taken to store the name it is given as the id.
\<close>

theorem keygen_failure_aborts:
  assumes "generateShardConfig newShardInfo draws master m = Some (made, m1)"
    and "\<forall>n. shardName (newShardInfo n) = n"
  shows "registryMap (fst (keyPairGenerated cfg made (Inl e) m1)) = registryMap m \<and>
         snd (keyPairGenerated cfg made (Inl e) m1) = None \<and>
         notices (fst (keyPairGenerated cfg made (Inl e) m1)) =
           notices m @ (if mailEnabled cfg
                        then [ShardCreateFailEmail ''Failed to generate key-pair!''] else [])"
proof -
  from assms(1) obtain name where n: "generateShardName draws (registryMap m) = Some name"
    and made: "made = (if master then (newShardInfo name)\<lparr>isMaster := True\<rparr> else newShardInfo name)"
    and m1: "m1 = m\<lparr>registryMap := AList.update (shardName (newShardInfo name)) made (registryMap m)\<rparr>"
    by (auto simp: generateShardConfig_def Let_def split: option.splits)
  have fresh: "map_of (registryMap m) name = None" using generateShardName_fresh[OF n] by simp
  have k: "shardName made = name" "shardName (newShardInfo name) = name"
    using made assms(2) by simp_all
  have "AList.delete (shardName made) (registryMap m1) = registryMap m"
    using m1 k delete_update_fresh[OF fresh] by simp
  then show ?thesis
    using m1 by (simp add: keyPairGenerated_def sendShardCreateFailEmail_def)
qed

text \<open>With mail disabled, a failed key generation raises nothing.\<close>

theorem keygen_failure_silent_counterexample:
  "generateShardConfig (\<lambda>n. exShard n (- 1) (- 1) 0 0) [''abc''] False
     \<lparr>registryMap = [], notices = []\<rparr> =
     Some (exShard ''abc'' (- 1) (- 1) 0 0,
           \<lparr>registryMap = [(''abc'', exShard ''abc'' (- 1) (- 1) 0 0)], notices = []\<rparr>) \<and>
   \<not> mailEnabled exCfg \<and>
   notices (fst (keyPairGenerated exCfg (exShard ''abc'' (- 1) (- 1) 0 0) (Inl ''no entropy'')
     \<lparr>registryMap = [(''abc'', exShard ''abc'' (- 1) (- 1) 0 0)], notices = []\<rparr>)) = []"
  by (simp add: generateShardConfig_def keyPairGenerated_def sendShardCreateFailEmail_def
      exCfg_def exShard_def Let_def)

text \<open>The same mint with mail enabled.\<close>

theorem keygen_failure_aborts_witness:
  "generateShardConfig (\<lambda>n. exShard n (- 1) (- 1) 0 0) [''abc''] False
     \<lparr>registryMap = [], notices = []\<rparr> =
     Some (exShard ''abc'' (- 1) (- 1) 0 0,
           \<lparr>registryMap = [(''abc'', exShard ''abc'' (- 1) (- 1) 0 0)], notices = []\<rparr>) \<and>
   (\<forall>n. shardName ((\<lambda>n. exShard n (- 1) (- 1) 0 0) n) = n) \<and>
   registryMap (fst (keyPairGenerated (exCfg\<lparr>mailEnabled := True\<rparr>)
     (exShard ''abc'' (- 1) (- 1) 0 0) (Inl ''no entropy'')
     \<lparr>registryMap = [(''abc'', exShard ''abc'' (- 1) (- 1) 0 0)], notices = []\<rparr>)) = [] \<and>
   notices (fst (keyPairGenerated (exCfg\<lparr>mailEnabled := True\<rparr>)
     (exShard ''abc'' (- 1) (- 1) 0 0) (Inl ''no entropy'')
     \<lparr>registryMap = [(''abc'', exShard ''abc'' (- 1) (- 1) 0 0)], notices = []\<rparr>)) =
     [ShardCreateFailEmail ''Failed to generate key-pair!'']"
proof -
  have h1: "generateShardConfig (\<lambda>n. exShard n (- 1) (- 1) 0 0) [''abc''] False
     \<lparr>registryMap = [], notices = []\<rparr> =
     Some (exShard ''abc'' (- 1) (- 1) 0 0,
           \<lparr>registryMap = [(''abc'', exShard ''abc'' (- 1) (- 1) 0 0)], notices = []\<rparr>)"
    by (simp add: generateShardConfig_def exShard_def Let_def)
  have h2: "\<forall>n. shardName ((\<lambda>n. exShard n (- 1) (- 1) 0 0) n) = n"
    by (simp add: exShard_def)
  have e: "mailEnabled (exCfg\<lparr>mailEnabled := True\<rparr>)" by simp
  note T = keygen_failure_aborts[OF h1 h2, of "exCfg\<lparr>mailEnabled := True\<rparr>" "''no entropy''"]
  show ?thesis using h1 h2 T e by simp
qed

text \<open>
  Claim C6 at the input where the code leaves it: with no shard socket connected, the
  loop emits nothing and never calls \<^verbatim>\<open>done\<close>, so the callback has not been called when
  \<^verbatim>\<open>broadcastEvalToShards\<close> returns, and no acknowledgement is outstanding that could call
  it later.
\<close>

theorem broadcast_without_shards:
  "broadcastEvalToShards users [] =
     Some (\<lparr>numDone = 0, err = None, out = [], cbCalls = []\<rparr>, [])"
  by (simp add: broadcastEvalToShards_def)

lemma done_one_finished:
  "num < numDone b \<Longrightarrow>
   cbCalls (done_one num b) = cbCalls b \<and> num < numDone (done_one num b)"
  by (simp add: done_one_def Let_def)

lemma evalReply_finished:
  "num < numDone b \<Longrightarrow>
   cbCalls (evalReply num i error res b) = cbCalls b \<and> num < numDone (evalReply num i error res b)"
  by (cases error) (simp_all add: evalReply_def done_one_finished)

lemma evalReplies_finished:
  "num < numDone b \<Longrightarrow> cbCalls (evalReplies num rs b) = cbCalls b"
proof (induction rs arbitrary: b)
  case Nil
  then show ?case by (simp add: evalReplies_def)
next
  case (Cons r rs)
  have "evalReplies num (r # rs) b =
        evalReplies num rs (evalReply num (fst r) (fst (snd r)) (snd (snd r)) b)"
    by (simp add: evalReplies_def)
  then show ?case
    using Cons.IH[of "evalReply num (fst r) (fst (snd r)) (snd (snd r)) b"]
      evalReply_finished[OF Cons.prems] by simp
qed

lemma evalReplies_Cons:
  "evalReplies num (r # rs) b =
     evalReplies num rs (evalReply num (fst r) (fst (snd r)) (snd (snd r)) b)"
  by (simp add: evalReplies_def)

text \<open>While replies are outstanding and none was an error, the callback has not been
  called; the first error, or the last reply, calls it, and it is never called again.\<close>

lemma evalReplies_calls:
  assumes "cbCalls b = []" and "err b = None" and "numDone b + e = num" and "length rs \<le> e"
  shows "cbCalls (evalReplies num rs b) =
           (case List.find (\<lambda>r. fst (snd r) \<noteq> None) rs of
              Some r \<Rightarrow> [CbError (the (fst (snd r)))]
            | None \<Rightarrow> if rs \<noteq> [] \<and> length rs = e
                      then [CbResult (out (evalReplies num rs b))] else [])"
  using assms
proof (induction rs arbitrary: b e)
  case Nil
  then show ?case by (simp add: evalReplies_def)
next
  case (Cons r rs)
  obtain i error res where r: "r = (i, error, res)" by (cases r)
  have e: "0 < e" using Cons.prems(4) by auto
  show ?case
  proof (cases error)
    case (Some x)
    let ?b = "evalReply num i error res b"
    have "numDone b + 1 \<le> num" using Cons.prems(3) e by simp
    then have fired: "cbCalls ?b = [CbError x]" and fin: "num < numDone ?b"
      using Some Cons.prems(1) by (simp_all add: evalReply_def done_one_def Let_def)
    show ?thesis
      using evalReplies_finished[OF fin, of rs] fired Some r
      by (simp add: evalReplies_Cons)
  next
    case None
    let ?b = "evalReply num i error res b"
    show ?thesis
    proof (cases "e = 1")
      case True
      then have rs: "rs = []" using Cons.prems(4) by simp
      have "numDone b + 1 = num" using Cons.prems(3) True by simp
      then have "cbCalls ?b = [CbResult (out ?b)]"
        using None Cons.prems(1,2) by (simp add: evalReply_def done_one_def Let_def)
      then show ?thesis using rs r None True by (simp add: evalReplies_def)
    next
      case False
      then have e2: "1 < e" using e by simp
      have lt: "numDone b + 1 < num" using Cons.prems(3) e2 by simp
      then have st: "cbCalls ?b = []" "err ?b = None" "numDone ?b + (e - 1) = num"
        using None Cons.prems(1,2,3) by (simp_all add: evalReply_def done_one_def Let_def)
      have len: "length rs \<le> e - 1" using Cons.prems(4) by simp
      have eq: "(rs \<noteq> [] \<and> length rs = e - 1) \<longleftrightarrow> length (r # rs) = e"
        using e2 by auto
      have ec: "evalReplies num (r # rs) b = evalReplies num rs ?b"
        using r by (simp add: evalReplies_Cons)
      have f: "List.find (\<lambda>r. fst (snd r) \<noteq> None) (r # rs) =
               List.find (\<lambda>r. fst (snd r) \<noteq> None) rs"
        using r None by simp
      have ne: "r # rs \<noteq> []" by simp
      show ?thesis
        unfolding ec f using Cons.IH[OF st len] eq ne by (simp split: option.splits)
    qed
  qed
qed

lemma emitEvalRequests_emitted_grows:
  "emitEvalRequests num users ents (b, em) = Some (b', em') \<Longrightarrow> length em \<le> length em'"
proof (induction ents arbitrary: b em)
  case Nil
  then show ?case by simp
next
  case (Cons ent ents)
  then show ?case
    by (fastforce split: option.splits if_splits)
qed

lemma emitEvalRequests_state:
  assumes "emitEvalRequests num users ents (b, em) = Some (b', em')"
    and "cbCalls b = []" and "err b = None" and "out b = []"
    and "numDone b + length em + length ents = num"
  shows "(em' \<noteq> [] \<longrightarrow>
            cbCalls b' = [] \<and> err b' = None \<and> out b' = [] \<and> numDone b' + length em' = num) \<and>
         (em' = [] \<and> ents \<noteq> [] \<longrightarrow> cbCalls b' = [CbResult []])"
  using assms
proof (induction ents arbitrary: b em)
  case Nil
  then show ?case by auto
next
  case (Cons ent ents)
  from Cons.prems(1) obtain user where u: "map_of users (fst ent) = Some user"
    by (auto split: option.splits)
  show ?case
  proof (cases "currentShardId user < 0")
    case False
    let ?em = "em @ [(snd ent, currentShardId user)]"
    have step: "emitEvalRequests num users ents (b, ?em) = Some (b', em')"
      using Cons.prems(1) u False by simp
    have inv: "numDone b + length ?em + length ents = num" using Cons.prems(5) by simp
    have ne: "em' \<noteq> []" using emitEvalRequests_emitted_grows[OF step] by auto
    from Cons.IH[OF step Cons.prems(2,3,4) inv] ne show ?thesis by simp
  next
    case True
    let ?b = "done_one num b"
    have step: "emitEvalRequests num users ents (?b, em) = Some (b', em')"
      using Cons.prems(1) u True by simp
    show ?thesis
    proof (cases "em = [] \<and> ents = []")
      case True
      then have "numDone b + 1 = num" using Cons.prems(5) by simp
      then have "cbCalls ?b = [CbResult []]"
        using Cons.prems(2,3,4) by (simp add: done_one_def Let_def)
      moreover have "b' = ?b" "em' = []" using step True by simp_all
      ultimately show ?thesis by simp
    next
      case False
      then have lt: "numDone b + 1 < num" using Cons.prems(5) by (cases em; cases ents) auto
      then have st: "cbCalls ?b = []" "err ?b = None" "out ?b = []"
        "numDone ?b + length em + length ents = num"
        using Cons.prems(2-5) by (simp_all add: done_one_def Let_def)
      from Cons.IH[OF step st] have IH:
        "(em' \<noteq> [] \<longrightarrow> cbCalls b' = [] \<and> err b' = None \<and> out b' = [] \<and>
            numDone b' + length em' = num) \<and>
         (em' = [] \<and> ents \<noteq> [] \<longrightarrow> cbCalls b' = [CbResult []])" .
      have "em' = [] \<Longrightarrow> ents \<noteq> []"
      proof -
        assume e: "em' = []"
        then have "em = []" using emitEvalRequests_emitted_grows[OF step] by simp
        with False show "ents \<noteq> []" by simp
      qed
      with IH show ?thesis by blast
    qed
  qed
qed

text \<open>
  With at least one shard socket, and once every request that was emitted has been
  acknowledged, the callback has been called exactly once: with the first error if an
  acknowledgement carried one, otherwise with the array of the replies.
\<close>

lemma broadcast_calls_back_once:
  assumes "broadcastEvalToShards users socks = Some (b, emitted)"
    and "socks \<noteq> []" and "length rs = length emitted"
  shows "cbCalls (evalReplies (length socks) rs b) =
           (case List.find (\<lambda>r. fst (snd r) \<noteq> None) rs of
              Some r \<Rightarrow> [CbError (the (fst (snd r)))]
            | None \<Rightarrow> [CbResult (out (evalReplies (length socks) rs b))])"
proof -
  let ?b0 = "\<lparr>numDone = 0, err = None, out = [], cbCalls = []\<rparr>"
  have run: "emitEvalRequests (length socks) users socks (?b0, []) = Some (b, emitted)"
    using assms(1) by (simp add: broadcastEvalToShards_def)
  have st: "(emitted \<noteq> [] \<longrightarrow>
            cbCalls b = [] \<and> err b = None \<and> out b = [] \<and>
            numDone b + length emitted = length socks) \<and>
         (emitted = [] \<and> socks \<noteq> [] \<longrightarrow> cbCalls b = [CbResult []])"
    by (rule emitEvalRequests_state[OF run]) simp_all
  show ?thesis
  proof (cases "emitted = []")
    case True
    then have "rs = []" using assms(3) by simp
    moreover have "cbCalls b = [CbResult []]" "out b = [] \<or> True" using st True assms(2) by simp_all
    moreover have "out b = []"
    proof -
      have "\<And>ents b0 em. emitEvalRequests (length socks) users ents (b0, em) = Some (b, emitted)
              \<Longrightarrow> out b = out b0"
      proof -
        fix ents b0 em
        show "emitEvalRequests (length socks) users ents (b0, em) = Some (b, emitted)
              \<Longrightarrow> out b = out b0"
        proof (induction ents arbitrary: b0 em)
          case Nil
          then show ?case by simp
        next
          case (Cons a ents)
          then show ?case
            by (fastforce simp: done_one_def Let_def split: option.splits if_splits)
        qed
      qed
      from this[OF run] show ?thesis by simp
    qed
    ultimately show ?thesis by (simp add: evalReplies_def)
  next
    case False
    with st have s: "cbCalls b = []" "err b = None" "numDone b + length emitted = length socks"
      by simp_all
    have rs: "rs \<noteq> []" "length rs \<le> length emitted" using False assms(3) by auto
    from evalReplies_calls[OF s rs(2)] rs(1) assms(3) show ?thesis
      by (simp split: option.splits)
  qed
qed


section \<open>Properties of the sharding slave\<close>

subsection \<open>Evaluation requests\<close>



lemma settle_pending:
  assumes "p < length (promises s)" and "settled (promises s ! p) = None"
  shows "called (settle p r s) = called s @ map (\<lambda>cb. (cb, r)) (waiters (promises s ! p))"
  using assms by (simp add: settle_def)





subsection \<open>File relay\<close>

text \<open>When the test of the prefix fails nothing is written and nothing is read.\<close>

lemma startsWith_refused:
  "\<not> startsWith (resolve (botCWD @ ''/'' @ filename)) botCWD \<Longrightarrow>
   receiveMasterFile botCWD filename dat = TypeErrorThrown \<and>
   sendMasterFile botCWD disk filename = (None, None)"
  by (simp add: receiveMasterFile_def sendMasterFile_def)

text \<open>
  Claim C7 at an input that separates the test of the code from the claim: the test is a
  prefix test on the characters of the path, so a path in a sibling directory whose name
  begins with the name of the project directory passes it.  Such a file is written, and
  read and handed to the master.  A path in a directory of another name is refused.
\<close>

theorem file_relay_sibling_directory:
  "receiveMasterFile ''/srv/bot'' ''../bot-old/auth.js'' ''data'' =
     WriteFile ''/srv/bot-old/auth.js'' ''data'' \<and>
   sendMasterFile ''/srv/bot''
     (\<lambda>f. if f = ''/srv/bot-old/auth.js'' then Some ''secret'' else None) ''../bot-old/auth.js'' =
     (Some ''/srv/bot-old/auth.js'', Some ''secret'') \<and>
   \<not> withinDirectory ''/srv/bot'' ''/srv/bot-old/auth.js'' \<and>
   withinDirectory ''/srv/bot'' ''/srv/bot/save/x.json'' \<and>
   receiveMasterFile ''/srv/bot'' ''../other/x'' ''data'' = TypeErrorThrown"
  by (simp add: receiveMasterFile_def sendMasterFile_def resolve_def startsWith_def
      withinDirectory_def)


end
